theory Spec2Isabelle
  imports Main "HOL-Library.AList" "HOL-Library.Word"
begin

section \<open>The document consumer of \<^verbatim>\<open>src/documents/consumer.py\<close>\<close>

text \<open>
  The consumer is glue between the operating system, the database and a handful of
  collaborators (parsers, \<^verbatim>\<open>FileInfo\<close>, \<^verbatim>\<open>Tag\<close>, \<^verbatim>\<open>GnuPG\<close>, \<^verbatim>\<open>hashlib\<close>, the three signals).
  The embedding keeps the class as it is written: \<^verbatim>\<open>self\<close> is a record, everything outside
  the object (file system, database, what was logged and sent) is a second record that is
  passed through every method, and an exception is the \<open>Inl\<close> of a sum.  A raised
  exception keeps the effects that happened before it, so a method returns its outcome
  together with the state it left behind.
\<close>

subsection \<open>Values\<close>

type_synonym path = string
type_synonym bytes = "8 word list"
type_synonym tag = string

text \<open>
  \<^verbatim>\<open>st_mtime\<close> and the \<^verbatim>\<open>datetime\<close> values are only compared, sorted and copied; they are
  kept as integers (ticks of the clock that produced them).
\<close>

type_synonym mtime = int
type_synonym datetime = int

datatype exn =
    ConsumerError string
  | ParseError string
  | FileNotFoundError path
  | FileExistsError path
  | IsADirectoryError path
  | NotADirectoryError path
  | ExternalError string

fun is_ParseError :: "exn \<Rightarrow> bool" where
  "is_ParseError (ParseError _) = True"
| "is_ParseError _ = False"

fun is_ConsumerError :: "exn \<Rightarrow> bool" where
  "is_ConsumerError (ConsumerError _) = True"
| "is_ConsumerError _ = False"

fun is_FileExistsError :: "exn \<Rightarrow> bool" where
  "is_FileExistsError (FileExistsError _) = True"
| "is_FileExistsError _ = False"

text \<open>\<^verbatim>\<open>str(e)\<close> of an exception: its message.\<close>

fun str_exn :: "exn \<Rightarrow> string" where
  "str_exn (ConsumerError m) = m"
| "str_exn (ParseError m) = m"
| "str_exn (FileNotFoundError p) = p"
| "str_exn (FileExistsError p) = p"
| "str_exn (IsADirectoryError p) = p"
| "str_exn (NotADirectoryError p) = p"
| "str_exn (ExternalError m) = m"

record document =
  pk :: nat
  correspondent :: "string option"
  title :: string
  content :: string
  file_type :: string
  checksum :: string
  created :: datetime
  modified :: datetime

record file_info =
  fi_created :: "datetime option"
  fi_correspondent :: "string option"
  fi_title :: string
  fi_extension :: string
  fi_tags :: "tag list"

text \<open>
  A parser class, instantiated on the document path.  Each extraction either returns or
  raises; what a parser writes below the scratch directory is part of the file system the
  store step later reads the thumbnail from.
\<close>

record parser_class =
  parser_name :: string
  get_thumbnail :: "path \<Rightarrow> exn + path"
  get_date :: "path \<Rightarrow> exn + datetime option"
  get_text :: "path \<Rightarrow> exn + string"

text \<open>
  What a receiver of \<^verbatim>\<open>document_consumer_declaration\<close> answers: a function of the path
  that returns \<^verbatim>\<open>None\<close> or the dictionary \<^verbatim>\<open>{"parser": ..., "weight": ...}\<close>.
\<close>

record candidate =
  weight :: int
  parser :: parser_class

type_synonym consumer_declaration = "path \<Rightarrow> candidate option"

datatype level = DEBUG | INFO | ERROR

datatype event =
    Log level string "nat option"
  | ConsumptionStarted path "nat option"
  | ConsumptionFinished document "nat option"
  | ParserCleanup string
  | DocumentCreated document
  | TagsAdded nat "tag list"
  | FileWritten path bytes
  | FileUnlinked path

datatype node = File bytes mtime | Dir mtime

subsection \<open>The collaborators and the two states\<close>

text \<open>
  The collaborators that are not part of \<^verbatim>\<open>consumer.py\<close> are parameters: the hash, the
  title pattern of \<^verbatim>\<open>FileInfo.REGEXES\<close>, \<^verbatim>\<open>FileInfo.from_path\<close>, \<^verbatim>\<open>Tag.match_all\<close>,
  \<^verbatim>\<open>GnuPG.encrypted\<close> (which may raise), the two artifact paths of a document, the
  conversion of a file time into an aware \<^verbatim>\<open>datetime\<close>, \<^verbatim>\<open>str(document)\<close>, the answers to
  \<^verbatim>\<open>document_consumer_declaration\<close>, and what other processes do to the files while the
  consumer sleeps.
\<close>

record env =
  md5 :: "bytes \<Rightarrow> string"
  title_match :: "path \<Rightarrow> bool"
  from_path :: "path \<Rightarrow> file_info"
  match_all :: "string \<Rightarrow> tag list"
  encrypted :: "bytes \<Rightarrow> exn + bytes"
  source_path :: "document \<Rightarrow> path"
  thumbnail_path :: "document \<Rightarrow> path"
  from_timestamp :: "mtime \<Rightarrow> datetime"
  str_document :: "document \<Rightarrow> string"
  declared :: "consumer_declaration list"
  settle :: "(path \<times> node) list \<Rightarrow> (path \<times> node) list"

text \<open>The fields of \<^verbatim>\<open>self\<close>.\<close>

record consumer =
  ignore :: "path list"
  consume :: path
  scratch :: path
  parsers :: "consumer_declaration list"
  logging_group :: "nat option"

text \<open>
  Everything outside the object.  \<open>files\<close> is the file system in the order
  \<^verbatim>\<open>os.scandir\<close> enumerates it, \<open>documents\<close> and \<open>doc_tags\<close> are the two tables,
  \<open>events\<close> records every effect on a collaborator in the order it happened, \<open>uuids\<close> is
  the next value of \<^verbatim>\<open>uuid.uuid4()\<close> and \<open>clock\<close> stamps the files that are written.
\<close>

record world =
  files :: "(path \<times> node) list"
  documents :: "document list"
  doc_tags :: "(nat \<times> tag) list"
  events :: "event list"
  uuids :: nat
  clock :: mtime

subsection \<open>The operating system\<close>

definition fs_lookup :: "path \<Rightarrow> world \<Rightarrow> node option" where
  "fs_lookup p w = map_of (files w) p"

definition os_path_exists :: "path \<Rightarrow> world \<Rightarrow> bool" where
  "os_path_exists p w = (fs_lookup p w \<noteq> None)"

text \<open>\<^verbatim>\<open>os.stat(p).st_mtime\<close> and \<^verbatim>\<open>os.path.getmtime(p)\<close>.\<close>

definition os_path_getmtime :: "path \<Rightarrow> world \<Rightarrow> exn + mtime" where
  "os_path_getmtime p w =
     (case fs_lookup p w of
        None \<Rightarrow> Inl (FileNotFoundError p)
      | Some (File b m) \<Rightarrow> Inr m
      | Some (Dir m) \<Rightarrow> Inr m)"

text \<open>\<^verbatim>\<open>open(p, "rb")\<close> followed by \<^verbatim>\<open>read()\<close>.\<close>

definition read_file :: "path \<Rightarrow> world \<Rightarrow> exn + bytes" where
  "read_file p w =
     (case fs_lookup p w of
        None \<Rightarrow> Inl (FileNotFoundError p)
      | Some (File b m) \<Rightarrow> Inr b
      | Some (Dir m) \<Rightarrow> Inl (IsADirectoryError p))"

text \<open>\<^verbatim>\<open>open(p, "rb")\<close> alone: the file has to be there.\<close>

definition open_rb :: "path \<Rightarrow> world \<Rightarrow> exn + unit" where
  "open_rb p w = (case read_file p w of Inl e \<Rightarrow> Inl e | Inr b \<Rightarrow> Inr ())"

text \<open>\<^verbatim>\<open>open(p, "wb")\<close>: the file is created, or truncated, before anything is written.\<close>

definition open_wb :: "path \<Rightarrow> world \<Rightarrow> (exn + unit) \<times> world" where
  "open_wb p w =
     (case fs_lookup p w of
        Some (Dir m) \<Rightarrow> (Inl (IsADirectoryError p), w)
      | _ \<Rightarrow> (Inr (), w\<lparr>files := AList.update p (File [] (clock w)) (files w)\<rparr>))"

definition file_write :: "path \<Rightarrow> bytes \<Rightarrow> world \<Rightarrow> world" where
  "file_write p b w =
     w\<lparr>files := AList.update p (File b (clock w)) (files w),
       events := events w @ [FileWritten p b]\<rparr>"

definition os_unlink :: "path \<Rightarrow> world \<Rightarrow> (exn + unit) \<times> world" where
  "os_unlink p w =
     (case fs_lookup p w of
        None \<Rightarrow> (Inl (FileNotFoundError p), w)
      | Some (Dir m) \<Rightarrow> (Inl (IsADirectoryError p), w)
      | Some (File b m) \<Rightarrow>
          (Inr (), w\<lparr>files := AList.delete p (files w),
                     events := events w @ [FileUnlinked p]\<rparr>))"

text \<open>\<^verbatim>\<open>os.path.join(d, n)\<close> for a name \<open>n\<close> without a leading separator.\<close>

definition os_path_join :: "path \<Rightarrow> string \<Rightarrow> path" where
  "os_path_join d n =
     (if d = [] \<or> last d = CHR ''/'' then d @ n else d @ ''/'' @ n)"

definition basename :: "path \<Rightarrow> string" where
  "basename p = rev (takeWhile (\<lambda>c. c \<noteq> CHR ''/'') (rev p))"

text \<open>
  \<^verbatim>\<open>os.scandir(d)\<close>: the entries whose path is \<open>d\<close> joined with a name, in the order of
  the directory.
\<close>

definition os_scandir :: "path \<Rightarrow> world \<Rightarrow> exn + (path \<times> node) list" where
  "os_scandir d w =
     (case fs_lookup d w of
        None \<Rightarrow> Inl (FileNotFoundError d)
      | Some (File b m) \<Rightarrow> Inl (NotADirectoryError d)
      | Some (Dir m) \<Rightarrow>
          Inr (filter (\<lambda>(p, n). basename p \<noteq> [] \<and> p = os_path_join d (basename p)) (files w)))"

text \<open>
  \<^verbatim>\<open>os.makedirs(d)\<close>: the empty path is no directory, an existing path raises
  \<^verbatim>\<open>FileExistsError\<close>, anything else is created.
\<close>

definition os_makedirs :: "path \<Rightarrow> world \<Rightarrow> (exn + unit) \<times> world" where
  "os_makedirs d w =
     (if d = [] then (Inl (FileNotFoundError d), w)
      else if os_path_exists d w then (Inl (FileExistsError d), w)
      else (Inr (), w\<lparr>files := files w @ [(d, Dir (clock w))]\<rparr>))"

text \<open>\<^verbatim>\<open>make_dirs\<close> (lines 243-248): only \<^verbatim>\<open>FileExistsError\<close> is passed over.\<close>

fun make_dirs :: "path list \<Rightarrow> world \<Rightarrow> (exn + unit) \<times> world" where
  "make_dirs [] w = (Inr (), w)"
| "make_dirs (d # ds) w =
     (case os_makedirs d w of
        (Inl e, w') \<Rightarrow> if is_FileExistsError e then make_dirs ds w' else (Inl e, w')
      | (Inr u, w') \<Rightarrow> make_dirs ds w')"

subsection \<open>Python's built-ins\<close>

text \<open>\<^verbatim>\<open>sep.join(xs)\<close>.\<close>

fun join :: "string \<Rightarrow> string list \<Rightarrow> string" where
  "join sep [] = []"
| "join sep [x] = x"
| "join sep (x # y # ys) = x @ sep @ join sep (y # ys)"

text \<open>
  \<^verbatim>\<open>sorted(xs, key=f)\<close> is a stable ascending sort.  With \<^verbatim>\<open>reverse=True\<close> the list is
  reversed, sorted the same way and reversed again, which is how elements with equal keys
  keep their order.
\<close>

definition sorted_by :: "('a \<Rightarrow> int) \<Rightarrow> 'a list \<Rightarrow> 'a list" where
  "sorted_by f xs = sort_key f xs"

definition sorted_by_reverse :: "('a \<Rightarrow> int) \<Rightarrow> 'a list \<Rightarrow> 'a list" where
  "sorted_by_reverse f xs = rev (sort_key f (rev xs))"

subsection \<open>The class \<^verbatim>\<open>Consumer\<close>\<close>

text \<open>\<^verbatim>\<open>__init__\<close> (lines 41-71).  The setting may be unset (\<^verbatim>\<open>None\<close>) or empty.\<close>

definition Consumer_init ::
  "env \<Rightarrow> path option \<Rightarrow> path \<Rightarrow> world \<Rightarrow> (exn + consumer) \<times> world" where
  "Consumer_init E consume_arg scratch_arg w =
     (case make_dirs [scratch_arg] w of
        (Inl e, w1) \<Rightarrow> (Inl e, w1)
      | (Inr u, w1) \<Rightarrow>
          (case consume_arg of
             None \<Rightarrow>
               (Inl (ConsumerError
                  ''The CONSUMPTION_DIR settings variable does not appear to be set.''), w1)
           | Some d \<Rightarrow>
               if d = [] then
                 (Inl (ConsumerError
                    ''The CONSUMPTION_DIR settings variable does not appear to be set.''), w1)
               else if \<not> os_path_exists d w1 then
                 (Inl (ConsumerError (''Consumption directory '' @ d @ '' does not exist'')), w1)
               else if declared E = [] then
                 (Inl (ConsumerError
                    ''No parsers could be found, not even the default.  This is a problem.''), w1)
               else
                 (Inr \<lparr>ignore = [], consume = d, scratch = scratch_arg,
                       parsers = declared E, logging_group = None\<rparr>, w1)))"

text \<open>\<^verbatim>\<open>log\<close> (lines 73-76).\<close>

definition log :: "consumer \<Rightarrow> level \<Rightarrow> string \<Rightarrow> world \<Rightarrow> world" where
  "log c l m w = w\<lparr>events := events w @ [Log l m (logging_group c)]\<rparr>"

text \<open>\<^verbatim>\<open>_is_duplicate\<close> (lines 236-240).\<close>

definition is_duplicate :: "env \<Rightarrow> path \<Rightarrow> world \<Rightarrow> exn + bool" where
  "is_duplicate E doc w =
     (case read_file doc w of
        Inl e \<Rightarrow> Inl e
      | Inr b \<Rightarrow> Inr (filter (\<lambda>d. checksum d = md5 E b) (documents w) \<noteq> []))"

text \<open>
  The loop of \<^verbatim>\<open>_get_parser_class\<close> (lines 168-172): every declaration is called, and
  the answers that are not \<^verbatim>\<open>None\<close> are appended to the options.
\<close>

fun probe_all :: "consumer_declaration list \<Rightarrow> path \<Rightarrow> candidate list" where
  "probe_all [] doc = []"
| "probe_all (p # ps) doc =
     (case p doc of
        None \<Rightarrow> probe_all ps doc
      | Some result \<Rightarrow> result # probe_all ps doc)"

text \<open>\<^verbatim>\<open>_get_parser_class\<close> (lines 163-186).\<close>

definition get_parser_class ::
  "consumer \<Rightarrow> path \<Rightarrow> world \<Rightarrow> parser_class option \<times> world" where
  "get_parser_class c doc w =
     (let options = probe_all (parsers c) doc;
          w1 = log c INFO
                 (''Parsers available: '' @
                    join '', '' (map (\<lambda>opt. parser_name (parser opt)) options)) w
      in if options = [] then (None, w1)
         else (case sorted_by_reverse weight options of
                 [] \<Rightarrow> (None, w1)
               | opt # rest \<Rightarrow> (Some (parser opt), w1)))"

text \<open>
  \<^verbatim>\<open>Document.objects.create(...)\<close>: the row is inserted under the next primary key.
\<close>

definition objects_create :: "document \<Rightarrow> world \<Rightarrow> document \<times> world" where
  "objects_create row w =
     (let d = row\<lparr>pk := Suc (fold max (map pk (documents w)) 0)\<rparr>
      in (d, w\<lparr>documents := documents w @ [d],
                events := events w @ [DocumentCreated d]\<rparr>))"

text \<open>\<^verbatim>\<open>document.tags.add(*relevant_tags)\<close>.\<close>

definition tags_add :: "document \<Rightarrow> tag list \<Rightarrow> world \<Rightarrow> world" where
  "tags_add d ts w =
     w\<lparr>doc_tags := doc_tags w @ map (Pair (pk d)) ts,
       events := events w @ [TagsAdded (pk d) ts]\<rparr>"

text \<open>
  The block that \<^verbatim>\<open>_store\<close> runs twice (lines 217-220 for the document, 223-226 for the
  thumbnail): open the source for reading, open the target for writing, log, then write
  the encryption of what the source holds.
\<close>

definition encrypt_and_store ::
  "env \<Rightarrow> consumer \<Rightarrow> path \<Rightarrow> path \<Rightarrow> string \<Rightarrow> world \<Rightarrow> (exn + unit) \<times> world" where
  "encrypt_and_store E c src dst msg w =
     (case open_rb src w of
        Inl e \<Rightarrow> (Inl e, w)
      | Inr u \<Rightarrow>
          (case open_wb dst w of
             (Inl e, w1) \<Rightarrow> (Inl e, w1)
           | (Inr u, w1) \<Rightarrow>
               (let w2 = log c DEBUG msg w1
                in case read_file src w2 of
                     Inl e \<Rightarrow> (Inl e, w2)
                   | Inr b \<Rightarrow>
                       (case encrypted E b of
                          Inl e \<Rightarrow> (Inl e, w2)
                        | Inr enc \<Rightarrow> (Inr (), file_write dst enc w2)))))"

text \<open>
  \<^verbatim>\<open>_store\<close> (lines 188-230).  The set of relevant tags is kept as a list without
  repetitions.
\<close>

definition store ::
  "env \<Rightarrow> consumer \<Rightarrow> string \<Rightarrow> path \<Rightarrow> path \<Rightarrow> datetime option \<Rightarrow> world
     \<Rightarrow> (exn + document) \<times> world" where
  "store E c text doc thumbnail date w =
     (let file_info = from_path E doc
      in case os_path_getmtime doc w of
           Inl e \<Rightarrow> (Inl e, w)
         | Inr st_mtime \<Rightarrow>
             (let w1 = log c DEBUG ''Saving record to database'' w;
                  created_at =
                    (case fi_created file_info of
                       Some t \<Rightarrow> t
                     | None \<Rightarrow>
                         (case date of
                            Some t \<Rightarrow> t
                          | None \<Rightarrow> from_timestamp E st_mtime))
              in case read_file doc w1 of
                   Inl e \<Rightarrow> (Inl e, w1)
                 | Inr b \<Rightarrow>
                     (let (document, w2) =
                            objects_create
                              \<lparr>pk = 0,
                               correspondent = fi_correspondent file_info,
                               title = fi_title file_info,
                               content = text,
                               file_type = fi_extension file_info,
                               checksum = md5 E b,
                               created = created_at,
                               modified = created_at\<rparr> w1;
                          relevant_tags = remdups (match_all E text @ fi_tags file_info);
                          w3 = (if relevant_tags = [] then w2
                                else tags_add document relevant_tags
                                       (log c DEBUG
                                          (''Tagging with '' @ join '', '' relevant_tags) w2))
                      in case encrypt_and_store E c doc (source_path E document)
                                ''Encrypting the document'' w3 of
                           (Inl e, w4) \<Rightarrow> (Inl e, w4)
                         | (Inr u, w4) \<Rightarrow>
                             (case encrypt_and_store E c thumbnail (thumbnail_path E document)
                                     ''Encrypting the thumbnail'' w4 of
                                (Inl e, w5) \<Rightarrow> (Inl e, w5)
                              | (Inr u, w5) \<Rightarrow> (Inr document, log c INFO ''Completed'' w5)))))"

text \<open>\<^verbatim>\<open>_cleanup_doc\<close> (lines 232-234).\<close>

definition cleanup_doc :: "consumer \<Rightarrow> path \<Rightarrow> world \<Rightarrow> (exn + unit) \<times> world" where
  "cleanup_doc c doc w = os_unlink doc (log c DEBUG (''Deleting document '' @ doc) w)"

text \<open>\<^verbatim>\<open>parsed_document.cleanup()\<close>.\<close>

definition parser_cleanup :: "parser_class \<Rightarrow> world \<Rightarrow> world" where
  "parser_cleanup p w = w\<lparr>events := events w @ [ParserCleanup (parser_name p)]\<rparr>"

text \<open>
  The body of the \<^verbatim>\<open>try\<close> statement (lines 135-142): thumbnail, date, then the text as
  the first argument of \<^verbatim>\<open>_store\<close>, which is evaluated before \<^verbatim>\<open>_store\<close> is entered.
\<close>

definition extract_and_store ::
  "env \<Rightarrow> consumer \<Rightarrow> parser_class \<Rightarrow> path \<Rightarrow> world \<Rightarrow> (exn + document) \<times> world" where
  "extract_and_store E c parsed_document doc w =
     (case get_thumbnail parsed_document doc of
        Inl e \<Rightarrow> (Inl e, w)
      | Inr thumbnail \<Rightarrow>
          (case get_date parsed_document doc of
             Inl e \<Rightarrow> (Inl e, w)
           | Inr date \<Rightarrow>
               (case get_text parsed_document doc of
                  Inl e \<Rightarrow> (Inl e, w)
                | Inr text \<Rightarrow> store E c text doc thumbnail date w)))"

text \<open>\<^verbatim>\<open>try_consume_file\<close> (lines 101-161).\<close>

definition try_consume_file ::
  "env \<Rightarrow> path \<Rightarrow> consumer \<Rightarrow> world \<Rightarrow> (exn + bool) \<times> consumer \<times> world" where
  "try_consume_file E file c w =
     (if \<not> title_match E file then (Inr False, c, w)
      else
        (case is_duplicate E file w of
           Inl e \<Rightarrow> (Inl e, c, w)
         | Inr dup \<Rightarrow>
             if dup then
               (Inr False, c,
                log c INFO (''Skipping '' @ file @ '' as it appears to be a duplicate'') w)
             else
               (case get_parser_class c file w of
                  (None, w1) \<Rightarrow>
                    (Inr False, c, log c ERROR (''No parsers could be found for '' @ file) w1)
                | (Some parser_class, w1) \<Rightarrow>
                    (let c1 = c\<lparr>logging_group := Some (uuids w1)\<rparr>;
                         w2 = w1\<lparr>uuids := Suc (uuids w1)\<rparr>;
                         w3 = log c1 INFO (''Consuming '' @ file) w2;
                         w4 = w3\<lparr>events := events w3 @
                                  [ConsumptionStarted file (logging_group c1)]\<rparr>
                     in case extract_and_store E c1 parser_class file w4 of
                          (Inl e, w5) \<Rightarrow>
                            if is_ParseError e then
                              (Inr False, c1,
                               parser_cleanup parser_class
                                 (log c1 ERROR
                                    (''PARSE FAILURE for '' @ file @ '': '' @ str_exn e) w5))
                            else (Inl e, c1, w5)
                        | (Inr document, w5) \<Rightarrow>
                            (case cleanup_doc c1 file (parser_cleanup parser_class w5) of
                               (Inl e, w6) \<Rightarrow> (Inl e, c1, w6)
                             | (Inr u, w6) \<Rightarrow>
                                 (let w7 = log c1 INFO
                                             (''Document '' @ str_document E document @
                                                '' consumption finished'') w6
                                  in (Inr True, c1,
                                      w7\<lparr>events := events w7 @
                                           [ConsumptionFinished document
                                              (logging_group c1)]\<rparr>)))))))"

text \<open>The \<^verbatim>\<open>for\<close> loop of \<^verbatim>\<open>consume_new_files\<close> (lines 95-99).\<close>

fun consume_files ::
  "env \<Rightarrow> (path \<times> mtime) list \<Rightarrow> consumer \<Rightarrow> world \<Rightarrow> (exn + unit) \<times> consumer \<times> world" where
  "consume_files E [] c w = (Inr (), c, w)"
| "consume_files E ((file, mt) # rest) c w =
     (case os_path_getmtime file w of
        Inl e \<Rightarrow> (Inl e, c, w)
      | Inr m \<Rightarrow>
          if mt = m then
            (case try_consume_file E file c w of
               (Inl e, c1, w1) \<Rightarrow> (Inl e, c1, w1)
             | (Inr consumed, c1, w1) \<Rightarrow>
                 if \<not> consumed then consume_files E rest (c1\<lparr>ignore := ignore c1 @ [file]\<rparr>) w1
                 else consume_files E rest c1 w1)
          else consume_files E rest c w)"

text \<open>
  The scan of \<^verbatim>\<open>consume_new_files\<close> (lines 83-86): regular files that are not ignored,
  with the modification time of the directory entry.
\<close>

definition scan_files :: "consumer \<Rightarrow> (path \<times> node) list \<Rightarrow> (path \<times> mtime) list" where
  "scan_files c entries =
     List.map_filter
       (\<lambda>(p, n). case n of
                   File b m \<Rightarrow> if p \<notin> set (ignore c) then Some (p, m) else None
                 | Dir m \<Rightarrow> None) entries"

text \<open>
  \<^verbatim>\<open>consume_new_files\<close> (lines 78-99).  During \<^verbatim>\<open>time.sleep\<close> the other processes act on
  the files.
\<close>

definition consume_new_files ::
  "env \<Rightarrow> consumer \<Rightarrow> world \<Rightarrow> (exn + unit) \<times> consumer \<times> world" where
  "consume_new_files E c w =
     (case os_scandir (consume c) w of
        Inl e \<Rightarrow> (Inl e, c, w)
      | Inr entries \<Rightarrow>
          (let fs = scan_files c entries
           in if fs = [] then (Inr (), c, w)
              else
                (let files_old_to_new = sorted_by snd fs;
                     w1 = w\<lparr>files := settle E (files w)\<rparr>
                 in consume_files E files_old_to_new c w1)))"

section \<open>Notions used by the statements\<close>

text \<open>
  Position \<open>i\<close> holds the first maximum of \<open>f\<close> in \<open>xs\<close>: nothing in the list is
  larger, and everything before \<open>i\<close> is strictly smaller.
\<close>

definition first_max :: "('a \<Rightarrow> int) \<Rightarrow> 'a list \<Rightarrow> nat \<Rightarrow> bool" where
  "first_max f xs i \<longleftrightarrow>
     i < length xs \<and> (\<forall>j < length xs. f (xs ! j) \<le> f (xs ! i)) \<and>
     (\<forall>j < i. f (xs ! j) < f (xs ! i))"

text \<open>
  The three extractions in the order in which \<^verbatim>\<open>try_consume_file\<close> asks for them; the
  first one that raises decides the outcome.
\<close>

definition extraction :: "parser_class \<Rightarrow> path \<Rightarrow> exn + (path \<times> datetime option \<times> string)" where
  "extraction p doc =
     (case get_thumbnail p doc of
        Inl e \<Rightarrow> Inl e
      | Inr thumbnail \<Rightarrow>
          (case get_date p doc of
             Inl e \<Rightarrow> Inl e
           | Inr date \<Rightarrow>
               (case get_text p doc of
                  Inl e \<Rightarrow> Inl e
                | Inr text \<Rightarrow> Inr (thumbnail, date, text))))"

fun is_Log :: "event \<Rightarrow> bool" where
  "is_Log (Log l m g) = True"
| "is_Log _ = False"

fun is_ParserCleanup :: "event \<Rightarrow> bool" where
  "is_ParserCleanup (ParserCleanup n) = True"
| "is_ParserCleanup _ = False"

fun is_FileUnlinked :: "event \<Rightarrow> bool" where
  "is_FileUnlinked (FileUnlinked p) = True"
| "is_FileUnlinked _ = False"

text \<open>
  The object and the world in which the \<^verbatim>\<open>try\<close> statement of \<^verbatim>\<open>try_consume_file\<close> is
  entered (after lines 116-130): the parsers were listed in the log, the logging group is
  fresh, the start was logged and announced.
\<close>

definition enter_try :: "consumer \<Rightarrow> path \<Rightarrow> world \<Rightarrow> consumer \<times> world" where
  "enter_try c file w =
     (let w1 = snd (get_parser_class c file w);
          c1 = c\<lparr>logging_group := Some (uuids w1)\<rparr>;
          w2 = w1\<lparr>uuids := Suc (uuids w1)\<rparr>;
          w3 = log c1 INFO (''Consuming '' @ file) w2
      in (c1, w3\<lparr>events := events w3 @ [ConsumptionStarted file (logging_group c1)]\<rparr>))"

text \<open>
  The events that belong to the consumption of one file: the announcement that it has
  started and the deletion of the source.
\<close>

fun consumption_of :: "path \<Rightarrow> event \<Rightarrow> bool" where
  "consumption_of f (ConsumptionStarted p g) = (p = f)"
| "consumption_of f (FileUnlinked p) = (p = f)"
| "consumption_of f _ = False"

text \<open>Regular files, and the world after a directory was created in it.\<close>

fun is_File :: "node \<Rightarrow> bool" where
  "is_File (File b m) = True"
| "is_File (Dir m) = False"

definition created_dir :: "path \<Rightarrow> world \<Rightarrow> world" where
  "created_dir d w = w\<lparr>files := files w @ [(d, Dir (clock w))]\<rparr>"

section \<open>A small installation\<close>

text \<open>
  Concrete collaborators and states on which the theorems below are instantiated: a
  consumption directory with one document, a parser for text and one for PDF.
\<close>

definition text_parser :: parser_class where
  "text_parser =
     \<lparr>parser_name = ''TextParser'',
      get_thumbnail = (\<lambda>p. Inr ''/scratch/text.png''),
      get_date = (\<lambda>p. Inr None),
      get_text = (\<lambda>p. Inr ''plain'')\<rparr>"

definition pdf_parser :: parser_class where
  "pdf_parser =
     \<lparr>parser_name = ''PdfParser'',
      get_thumbnail = (\<lambda>p. Inr ''/scratch/thumb.png''),
      get_date = (\<lambda>p. Inr (Some 77)),
      get_text = (\<lambda>p. Inr ''invoice'')\<rparr>"

definition is_pdf :: "path \<Rightarrow> bool" where
  "is_pdf p = (take 4 (rev p) = rev ''.pdf'')"

definition text_declaration :: consumer_declaration where
  "text_declaration p = Some \<lparr>weight = 5, parser = text_parser\<rparr>"

definition pdf_declaration :: consumer_declaration where
  "pdf_declaration p = (if is_pdf p then Some \<lparr>weight = 10, parser = pdf_parser\<rparr> else None)"

definition image_declaration :: consumer_declaration where
  "image_declaration p = None"

definition demo_consumer :: consumer where
  "demo_consumer =
     \<lparr>ignore = [], consume = ''/consume'', scratch = ''/scratch'',
      parsers = [image_declaration, text_declaration, pdf_declaration],
      logging_group = None\<rparr>"

definition demo_world :: world where
  "demo_world =
     \<lparr>files = [(''/consume'', Dir 1), (''/scratch'', Dir 1),
               (''/consume/a.pdf'', File [1, 2, 3] 10),
               (''/scratch/thumb.png'', File [9] 11)],
      documents = [], doc_tags = [], events = [], uuids = 0, clock = 20\<rparr>"

text \<open>A stand-in for the hash: three digests, enough to tell the files below apart.\<close>

definition demo_md5 :: "bytes \<Rightarrow> string" where
  "demo_md5 b =
     (if b = [1, 2, 3] then ''5289df737df57326fcdd22597afb1fac''
      else if b = [] then ''d41d8cd98f00b204e9800998ecf8427e''
      else ''93b885adfe0da089cdf634904fd59f71'')"

definition demo_env :: env where
  "demo_env =
     \<lparr>md5 = demo_md5,
      title_match = is_pdf,
      from_path = (\<lambda>p. \<lparr>fi_created = None, fi_correspondent = None, fi_title = basename p,
                          fi_extension = ''pdf'', fi_tags = []\<rparr>),
      match_all = (\<lambda>t. []),
      encrypted = (\<lambda>b. Inr (42 # b)),
      source_path = (\<lambda>d. ''/media/originals/'' @ replicate (pk d) CHR ''0'' @ ''.pdf.gpg''),
      thumbnail_path = (\<lambda>d. ''/media/thumbnails/'' @ replicate (pk d) CHR ''0'' @ ''.png.gpg''),
      from_timestamp = (\<lambda>m. m),
      str_document = title,
      declared = [image_declaration, text_declaration, pdf_declaration],
      settle = (\<lambda>fs. fs)\<rparr>"

text \<open>A document that was consumed earlier from the same bytes as \<^verbatim>\<open>/consume/a.pdf\<close>.\<close>

definition old_document :: document where
  "old_document =
     \<lparr>pk = 1, correspondent = None, title = ''a.pdf'', content = ''invoice'',
      file_type = ''pdf'', checksum = ''5289df737df57326fcdd22597afb1fac'',
      created = 5, modified = 5\<rparr>"

definition seen_world :: world where
  "seen_world = demo_world\<lparr>documents := [old_document]\<rparr>"

text \<open>An installation whose encryption fails, and a parser that cannot read its file.\<close>

definition broken_env :: env where
  "broken_env = demo_env\<lparr>encrypted := (\<lambda>b. Inl (ExternalError ''gpg: encryption failed''))\<rparr>"

definition unreadable_parser :: parser_class where
  "unreadable_parser =
     \<lparr>parser_name = ''OcrParser'',
      get_thumbnail = (\<lambda>p. Inr ''/scratch/thumb.png''),
      get_date = (\<lambda>p. Inr None),
      get_text = (\<lambda>p. Inl (ParseError ''no text recognised''))\<rparr>"

definition ocr_consumer :: consumer where
  "ocr_consumer =
     demo_consumer\<lparr>parsers := [\<lambda>p. Some \<lparr>weight = 0, parser = unreadable_parser\<rparr>]\<rparr>"

text \<open>
  A second document in the consumption directory, and an installation in which another
  process is still writing \<^verbatim>\<open>/consume/a.pdf\<close> while the consumer sleeps.
\<close>

definition two_files_world :: world where
  "two_files_world =
     demo_world\<lparr>files := files demo_world @ [(''/consume/b.pdf'', File [4, 5] 12)]\<rparr>"

definition busy_env :: env where
  "busy_env =
     demo_env\<lparr>settle := AList.update ''/consume/a.pdf'' (File [1, 2, 3, 4] 15)\<rparr>"

section \<open>Parser selection\<close>

lemma last_insort_key_sorted:
  "sorted (map f ys) \<Longrightarrow> ys \<noteq> [] \<Longrightarrow>
   last (insort_key f x ys) = (if f (last ys) < f x then x else last ys)"
proof (induction ys)
  case Nil
  then show ?case by simp
next
  case (Cons y ys)
  show ?case
  proof (cases "ys = []")
    case True
    then show ?thesis by auto
  next
    case False
    with Cons have IH: "last (insort_key f x ys) = (if f (last ys) < f x then x else last ys)"
      by simp
    have le: "f y \<le> f (last ys)" using Cons.prems False by auto
    show ?thesis using False IH le by auto
  qed
qed

text \<open>
  Appending one more option to the list replaces the head of the reverse-sorted list only
  when the new weight is strictly larger.
\<close>

lemma hd_sorted_by_reverse_snoc:
  fixes f :: "'a \<Rightarrow> int"
  assumes "xs \<noteq> []"
  shows "hd (sorted_by_reverse f (xs @ [x])) =
         (if f (hd (sorted_by_reverse f xs)) < f x then x else hd (sorted_by_reverse f xs))"
proof -
  let ?ys = "sort_key f (rev xs)"
  have ne: "?ys \<noteq> []" using assms by (metis length_sort length_0_conv rev_is_Nil_conv)
  have "sorted_by_reverse f (xs @ [x]) = rev (insort_key f x ?ys)"
    by (simp add: sorted_by_reverse_def)
  moreover have "insort_key f x ?ys \<noteq> []" by (cases ?ys) auto
  ultimately have "hd (sorted_by_reverse f (xs @ [x])) = last (insort_key f x ?ys)"
    by (simp add: hd_rev)
  also have "\<dots> = (if f (last ?ys) < f x then x else last ?ys)"
    using ne by (intro last_insort_key_sorted) simp_all
  also have "last ?ys = hd (sorted_by_reverse f xs)"
    using ne by (simp add: sorted_by_reverse_def hd_rev)
  finally show ?thesis .
qed

lemma hd_sorted_by_reverse_first_max:
  fixes f :: "'a \<Rightarrow> int"
  shows "xs \<noteq> [] \<Longrightarrow> \<exists>i. first_max f xs i \<and> hd (sorted_by_reverse f xs) = xs ! i"
proof (induction xs rule: rev_induct)
  case Nil
  then show ?case by simp
next
  case (snoc x xs)
  show ?case
  proof (cases "xs = []")
    case True
    then show ?thesis by (auto simp: first_max_def sorted_by_reverse_def)
  next
    case False
    with snoc obtain i where i: "first_max f xs i" "hd (sorted_by_reverse f xs) = xs ! i"
      by blast
    show ?thesis
    proof (cases "f (xs ! i) < f x")
      case True
      have "first_max f (xs @ [x]) (length xs)"
        using i True unfolding first_max_def
        by (auto simp: nth_append less_Suc_eq)
      moreover have "hd (sorted_by_reverse f (xs @ [x])) = (xs @ [x]) ! length xs"
        using hd_sorted_by_reverse_snoc[OF False, of f x] i True by simp
      ultimately show ?thesis by blast
    next
      case F: False
      have "first_max f (xs @ [x]) i"
        using i F unfolding first_max_def by (auto simp: nth_append less_Suc_eq)
      moreover have "hd (sorted_by_reverse f (xs @ [x])) = (xs @ [x]) ! i"
        using hd_sorted_by_reverse_snoc[OF False, of f x] i F
        by (simp add: nth_append first_max_def)
      ultimately show ?thesis by blast
    qed
  qed
qed

lemma sorted_by_reverse_Nil_iff: "sorted_by_reverse f xs = [] \<longleftrightarrow> xs = []"
  unfolding sorted_by_reverse_def by (metis length_sort length_0_conv rev_is_Nil_conv)

lemma probe_all_map: "probe_all ps doc = List.map_filter (\<lambda>x. x) (map (\<lambda>p. p doc) ps)"
  by (induction ps) (auto split: option.splits)

lemma probe_all_Nil_iff: "probe_all ps doc = [] \<longleftrightarrow> (\<forall>p \<in> set ps. p doc = None)"
  by (induction ps) (auto split: option.splits)

lemma set_probe_all: "set (probe_all ps doc) = {a. \<exists>p \<in> set ps. p doc = Some a}"
  by (induction ps) (auto split: option.splits)

lemma fst_get_parser_class:
  "fst (get_parser_class c doc w) =
     (if probe_all (parsers c) doc = [] then None
      else Some (parser (hd (sorted_by_reverse weight (probe_all (parsers c) doc)))))"
  by (auto simp: get_parser_class_def Let_def sorted_by_reverse_Nil_iff split: list.splits)

lemma snd_get_parser_class:
  "snd (get_parser_class c doc w) =
     log c INFO
       (''Parsers available: '' @
          join '', '' (map (\<lambda>opt. parser_name (parser opt)) (probe_all (parsers c) doc))) w"
  by (auto simp: get_parser_class_def Let_def split: list.splits)

text \<open>
  Claim C4.  Parser selection calls every registered declaration on the file, so every
  acceptance is among the options.  It returns none exactly when every declaration
  declines.  Otherwise it returns the parser of the option at the first position of
  maximal weight: no option weighs more, and every option enumerated before it weighs
  strictly less, so of two options of equal weight the one enumerated first wins.  An
  option of weight 10 is chosen over one of weight 5 in either registration order, and two
  selections with the same probe results return the same parser.
\<close>

theorem get_parser_class_highest_weight:
  "(fst (get_parser_class c doc w) = None \<longleftrightarrow> (\<forall>p \<in> set (parsers c). p doc = None)) \<and>
   (probe_all (parsers c) doc \<noteq> [] \<longrightarrow>
      (\<exists>i. first_max weight (probe_all (parsers c) doc) i \<and>
           fst (get_parser_class c doc w) = Some (parser (probe_all (parsers c) doc ! i)))) \<and>
   (\<forall>p \<in> set (parsers c). \<forall>a. p doc = Some a \<longrightarrow> a \<in> set (probe_all (parsers c) doc)) \<and>
   (p1 doc = Some a \<and> p2 doc = Some b \<and> weight a = weight b \<longrightarrow>
      fst (get_parser_class (c\<lparr>parsers := [p1, p2]\<rparr>) doc w) = Some (parser a)) \<and>
   (p1 doc = Some a \<and> p2 doc = Some b \<and> weight a = 10 \<and> weight b = 5 \<longrightarrow>
      fst (get_parser_class (c\<lparr>parsers := [p1, p2]\<rparr>) doc w) = Some (parser a) \<and>
      fst (get_parser_class (c\<lparr>parsers := [p2, p1]\<rparr>) doc w) = Some (parser a)) \<and>
   (map (\<lambda>p. p doc) (parsers c) = map (\<lambda>p. p doc') (parsers c') \<longrightarrow>
      fst (get_parser_class c doc w) = fst (get_parser_class c' doc' w'))"
proof (intro conjI impI)
  show "fst (get_parser_class c doc w) = None \<longleftrightarrow> (\<forall>p \<in> set (parsers c). p doc = None)"
    by (simp add: fst_get_parser_class probe_all_Nil_iff)
next
  assume ne: "probe_all (parsers c) doc \<noteq> []"
  from hd_sorted_by_reverse_first_max[OF ne, of weight]
  show "\<exists>i. first_max weight (probe_all (parsers c) doc) i \<and>
           fst (get_parser_class c doc w) = Some (parser (probe_all (parsers c) doc ! i))"
    using ne by (auto simp: fst_get_parser_class)
next
  show "\<forall>p \<in> set (parsers c). \<forall>a. p doc = Some a \<longrightarrow> a \<in> set (probe_all (parsers c) doc)"
    by (auto simp: set_probe_all)
next
  assume "p1 doc = Some a \<and> p2 doc = Some b \<and> weight a = weight b"
  then show "fst (get_parser_class (c\<lparr>parsers := [p1, p2]\<rparr>) doc w) = Some (parser a)"
    by (simp add: fst_get_parser_class sorted_by_reverse_def)
next
  assume h: "p1 doc = Some a \<and> p2 doc = Some b \<and> weight a = 10 \<and> weight b = 5"
  then show "fst (get_parser_class (c\<lparr>parsers := [p1, p2]\<rparr>) doc w) = Some (parser a)"
    by (simp add: fst_get_parser_class sorted_by_reverse_def)
  from h show "fst (get_parser_class (c\<lparr>parsers := [p2, p1]\<rparr>) doc w) = Some (parser a)"
    by (simp add: fst_get_parser_class sorted_by_reverse_def)
next
  assume "map (\<lambda>p. p doc) (parsers c) = map (\<lambda>p. p doc') (parsers c')"
  then have "probe_all (parsers c) doc = probe_all (parsers c') doc'"
    by (simp add: probe_all_map)
  then show "fst (get_parser_class c doc w) = fst (get_parser_class c' doc' w')"
    by (simp add: fst_get_parser_class)
qed

theorem get_parser_class_highest_weight_witness:
  "probe_all (parsers demo_consumer) ''/consume/a.pdf'' \<noteq> [] \<and>
   (\<exists>i. first_max weight (probe_all (parsers demo_consumer) ''/consume/a.pdf'') i \<and>
        fst (get_parser_class demo_consumer ''/consume/a.pdf'' demo_world) =
          Some (parser (probe_all (parsers demo_consumer) ''/consume/a.pdf'' ! i))) \<and>
   map_option parser_name (fst (get_parser_class demo_consumer ''/consume/a.pdf'' demo_world)) =
     Some ''PdfParser''"
proof -
  have ne: "probe_all (parsers demo_consumer) ''/consume/a.pdf'' \<noteq> []"
    by (simp add: demo_consumer_def image_declaration_def text_declaration_def)
  have nm: "map_option parser_name
              (fst (get_parser_class demo_consumer ''/consume/a.pdf'' demo_world)) =
            Some ''PdfParser''"
    by (simp add: fst_get_parser_class sorted_by_reverse_def demo_consumer_def
        image_declaration_def text_declaration_def pdf_declaration_def is_pdf_def
        pdf_parser_def)
  from get_parser_class_highest_weight[of demo_consumer "''/consume/a.pdf''" demo_world] ne nm
  show ?thesis by blast
qed

section \<open>The per-file attempt\<close>

lemmas os_defs =
  fs_lookup_def os_path_exists_def os_path_getmtime_def read_file_def open_rb_def open_wb_def
  file_write_def os_unlink_def os_path_join_def basename_def os_scandir_def os_makedirs_def

lemmas consumer_defs =
  log_def is_duplicate_def get_parser_class_def sorted_by_def sorted_by_reverse_def
  objects_create_def tags_add_def encrypt_and_store_def store_def cleanup_doc_def
  parser_cleanup_def extract_and_store_def try_consume_file_def scan_files_def
  consume_new_files_def Consumer_init_def

lemmas demo_defs =
  two_files_world_def busy_env_def broken_env_def unreadable_parser_def ocr_consumer_def
  text_parser_def pdf_parser_def is_pdf_def text_declaration_def pdf_declaration_def
  image_declaration_def demo_consumer_def demo_world_def demo_md5_def demo_env_def
  old_document_def seen_world_def

lemma read_file_log [simp]: "read_file p (log c l m w) = read_file p w"
  by (simp add: read_file_def fs_lookup_def log_def)

lemma getmtime_log [simp]: "os_path_getmtime p (log c l m w) = os_path_getmtime p w"
  by (simp add: os_path_getmtime_def fs_lookup_def log_def)

lemma encrypt_and_store_cases:
  assumes "encrypt_and_store E c src dst msg w = (r, w')"
  shows "documents w' = documents w \<and> doc_tags w' = doc_tags w \<and> uuids w' = uuids w \<and>
         clock w' = clock w \<and>
         ((\<exists>e. r = Inl e \<and> list_all is_Log (drop (length (events w)) (events w')) \<and>
                take (length (events w)) (events w') = events w) \<or>
          (\<exists>enc. r = Inr () \<and>
             events w' = events w @ [Log DEBUG msg (logging_group c), FileWritten dst enc]))"
  using assms
  by (auto simp: encrypt_and_store_def open_rb_def open_wb_def log_def file_write_def Let_def
      split: sum.splits option.splits node.splits prod.splits if_splits)

lemma extract_and_store_extraction:
  "extract_and_store E c p doc w =
     (case extraction p doc of
        Inl e \<Rightarrow> (Inl e, w)
      | Inr (thumbnail, date, text) \<Rightarrow> store E c text doc thumbnail date w)"
  by (simp add: extract_and_store_def extraction_def split: sum.splits)

lemma store_Inr:
  assumes "store E c text doc thumbnail date w = (Inr d, w')"
  shows "\<exists>b tagged enc enc'.
           read_file doc w = Inr b \<and> checksum d = md5 E b \<and>
           documents w' = documents w @ [d] \<and>
           \<not> list_ex is_FileUnlinked tagged \<and>
           events w' = events w @
             [Log DEBUG ''Saving record to database'' (logging_group c), DocumentCreated d] @
             tagged @
             [Log DEBUG ''Encrypting the document'' (logging_group c),
              FileWritten (source_path E d) enc,
              Log DEBUG ''Encrypting the thumbnail'' (logging_group c),
              FileWritten (thumbnail_path E d) enc',
              Log INFO ''Completed'' (logging_group c)]"
  using assms
  apply (simp add: store_def Let_def objects_create_def split: sum.splits prod.splits)
  apply (auto dest!: encrypt_and_store_cases simp: tags_add_def log_def split: if_splits)
  done

lemma os_unlink_Inr:
  "os_unlink p w = (Inr u, w') \<Longrightarrow>
     fs_lookup p w' = None \<and> documents w' = documents w \<and>
     events w' = events w @ [FileUnlinked p]"
  by (auto simp: os_unlink_def fs_lookup_def delete_conv split: option.splits node.splits)

text \<open>
  Claim C1.  When the bytes of the file hash to the checksum of a document that is already
  in the table, the attempt returns False and leaves \<^verbatim>\<open>self\<close> as it was; the documents,
  their tags and the files (the source among them) are unchanged, and the only effects are
  log lines: nothing is created, written, deleted or sent.
\<close>

theorem try_consume_file_duplicate:
  assumes "read_file file w = Inr b"
    and "\<exists>d \<in> set (documents w). checksum d = md5 E b"
  shows "\<exists>w'. try_consume_file E file c w = (Inr False, c, w') \<and>
              documents w' = documents w \<and> doc_tags w' = doc_tags w \<and>
              files w' = files w \<and>
              (\<exists>logged. events w' = events w @ logged \<and> list_all is_Log logged)"
proof -
  from assms(2) have "filter (\<lambda>d. checksum d = md5 E b) (documents w) \<noteq> []"
    by (auto simp: filter_empty_conv)
  with assms(1) have dup: "is_duplicate E file w = Inr True"
    by (simp add: is_duplicate_def)
  show ?thesis
  proof (cases "title_match E file")
    case True
    with dup show ?thesis by (simp add: try_consume_file_def log_def)
  next
    case False
    then show ?thesis by (simp add: try_consume_file_def)
  qed
qed

theorem try_consume_file_duplicate_witness:
  "read_file ''/consume/a.pdf'' seen_world = Inr [1, 2, 3] \<and>
   (\<exists>d \<in> set (documents seen_world). checksum d = md5 demo_env [1, 2, 3]) \<and>
   (\<exists>w'. try_consume_file demo_env ''/consume/a.pdf'' demo_consumer seen_world =
            (Inr False, demo_consumer, w') \<and>
          documents w' = documents seen_world \<and> doc_tags w' = doc_tags seen_world \<and>
          files w' = files seen_world \<and>
          (\<exists>logged. events w' = events seen_world @ logged \<and> list_all is_Log logged))"
proof -
  have r: "read_file ''/consume/a.pdf'' seen_world = Inr [1, 2, 3]"
    by (simp add: os_defs demo_defs)
  have d: "\<exists>d \<in> set (documents seen_world). checksum d = md5 demo_env [1, 2, 3]"
    by (simp add: demo_defs)
  from try_consume_file_duplicate[OF r d, of demo_consumer] r d show ?thesis by blast
qed

text \<open>
  Claim C3.  When the attempt returns True, the table of documents has grown by exactly
  one document, whose checksum is the hash of the bytes the source held when the attempt
  began; the source path no longer exists; and among the effects of the attempt the
  deletion of the source is the only deletion and comes after the creation of the document
  and after the write of its encrypted content, in this order.
\<close>

theorem try_consume_file_consumed:
  assumes "try_consume_file E file c w = (Inr True, c', w')"
  shows "\<exists>b d enc before between after.
           read_file file w = Inr b \<and>
           documents w' = documents w @ [d] \<and> checksum d = md5 E b \<and>
           \<not> os_path_exists file w' \<and>
           events w' = events w @ before @ [DocumentCreated d] @ between @
             [FileWritten (source_path E d) enc] @ after @ [FileUnlinked file,
              Log INFO (''Document '' @ str_document E d @ '' consumption finished'')
                (logging_group c'),
              ConsumptionFinished d (logging_group c')] \<and>
           \<not> list_ex is_FileUnlinked (before @ between @ after)"
proof -
  from assms have tm: "title_match E file"
    by (auto simp: try_consume_file_def split: if_splits)
  from assms tm obtain b where b: "read_file file w = Inr b"
    by (auto simp: try_consume_file_def is_duplicate_def split: sum.splits)
  from assms tm b obtain p where p: "fst (get_parser_class c file w) = Some p"
    by (cases "get_parser_class c file w")
       (auto simp: try_consume_file_def is_duplicate_def split: if_splits option.splits)
  define c1 where "c1 = c\<lparr>logging_group := Some (uuids w)\<rparr>"
  define w1 where "w1 = snd (get_parser_class c file w)"
  define w4 where "w4 = (log c1 INFO (''Consuming '' @ file) (w1\<lparr>uuids := Suc (uuids w1)\<rparr>))
      \<lparr>events := events (log c1 INFO (''Consuming '' @ file) (w1\<lparr>uuids := Suc (uuids w1)\<rparr>)) @
                                  [ConsumptionStarted file (logging_group c1)]\<rparr>"
  have w1: "w1 = log c INFO
       (''Parsers available: '' @
          join '', '' (map (\<lambda>opt. parser_name (parser opt)) (probe_all (parsers c) file))) w"
    by (simp add: w1_def snd_get_parser_class)
  have gp: "get_parser_class c file w = (Some p, w1)"
    using p by (simp add: w1_def prod_eq_iff)
  have u: "uuids w1 = uuids w" by (simp add: w1 log_def)
  obtain r w5 where es: "extract_and_store E c1 p file w4 = (r, w5)"
    by (cases "extract_and_store E c1 p file w4")
  from assms tm b gp es u obtain d where r: "r = Inr d"
    by (auto simp: try_consume_file_def is_duplicate_def Let_def c1_def w4_def 
        split: if_splits sum.splits)
  obtain th dt tx where ex: "extraction p file = Inr (th, dt, tx)"
    and st: "store E c1 tx file th dt w4 = (Inr d, w5)"
    using es r by (auto simp: extract_and_store_extraction split: sum.splits)
  obtain w6 where un: "cleanup_doc c1 file (parser_cleanup p w5) = (Inr (), w6)"
    and c': "c' = c1"
    and w': "w' = (log c1 INFO (''Document '' @ str_document E d @ '' consumption finished'') w6)
         \<lparr>events := events (log c1 INFO (''Document '' @ str_document E d @ '' consumption finished'') w6)
           @ [ConsumptionFinished d (logging_group c1)]\<rparr>"
    using assms tm b gp es u r
    by (auto simp: try_consume_file_def is_duplicate_def Let_def c1_def w4_def
        split: if_splits sum.splits prod.splits)
  have b4: "read_file file w4 = Inr b"
    using b by (simp add: w4_def w1 read_file_def fs_lookup_def log_def)
  from store_Inr[OF st] b4 obtain tagged enc enc' where
    ck: "checksum d = md5 E b" and docs: "documents w5 = documents w4 @ [d]"
    and tg: "\<not> list_ex is_FileUnlinked tagged"
    and ev5: "events w5 = events w4 @
             [Log DEBUG ''Saving record to database'' (logging_group c1), DocumentCreated d] @
             tagged @
             [Log DEBUG ''Encrypting the document'' (logging_group c1),
              FileWritten (source_path E d) enc,
              Log DEBUG ''Encrypting the thumbnail'' (logging_group c1),
              FileWritten (thumbnail_path E d) enc',
              Log INFO ''Completed'' (logging_group c1)]"
    by auto
  from un have un': "os_unlink file (log c1 DEBUG (''Deleting document '' @ file) (parser_cleanup p w5)) = (Inr (), w6)"
    by (simp add: cleanup_doc_def)
  note u6 = os_unlink_Inr[OF un']
  have d4: "documents w4 = documents w" by (simp add: w4_def w1 log_def)
  have e4: "events w4 = events w @ [Log INFO
       (''Parsers available: '' @
          join '', '' (map (\<lambda>opt. parser_name (parser opt)) (probe_all (parsers c) file))) (logging_group c),
       Log INFO (''Consuming '' @ file) (logging_group c1), ConsumptionStarted file (logging_group c1)]"
    by (simp add: w4_def w1 log_def)
  let ?before = "[Log INFO
       (''Parsers available: '' @
          join '', '' (map (\<lambda>opt. parser_name (parser opt)) (probe_all (parsers c) file))) (logging_group c),
       Log INFO (''Consuming '' @ file) (logging_group c1), ConsumptionStarted file (logging_group c1),
       Log DEBUG ''Saving record to database'' (logging_group c1)]"
  let ?between = "tagged @ [Log DEBUG ''Encrypting the document'' (logging_group c1)]"
  let ?after = "[Log DEBUG ''Encrypting the thumbnail'' (logging_group c1),
              FileWritten (thumbnail_path E d) enc',
              Log INFO ''Completed'' (logging_group c1), ParserCleanup (parser_name p),
              Log DEBUG (''Deleting document '' @ file) (logging_group c1)]"
  have "documents w' = documents w @ [d]"
    using u6 docs d4 by (simp add: w' log_def parser_cleanup_def)
  moreover have "\<not> os_path_exists file w'"
    using u6 by (simp add: w' os_path_exists_def fs_lookup_def log_def)
  moreover have "events w' = events w @ ?before @ [DocumentCreated d] @ ?between @
             [FileWritten (source_path E d) enc] @ ?after @ [FileUnlinked file,
              Log INFO (''Document '' @ str_document E d @ '' consumption finished'')
                (logging_group c'),
              ConsumptionFinished d (logging_group c')]"
    using u6 ev5 e4 by (simp add: w' c' log_def parser_cleanup_def)
  moreover have "\<not> list_ex is_FileUnlinked (?before @ ?between @ ?after)"
    using tg by simp
  ultimately show ?thesis using b ck by blast
qed

theorem try_consume_file_consumed_witness:
  "fst (try_consume_file demo_env ''/consume/a.pdf'' demo_consumer demo_world) = Inr True \<and>
   (\<exists>b d. read_file ''/consume/a.pdf'' demo_world = Inr b \<and>
      documents (snd (snd (try_consume_file demo_env ''/consume/a.pdf'' demo_consumer demo_world))) =
        documents demo_world @ [d] \<and>
      checksum d = md5 demo_env b \<and>
      \<not> os_path_exists ''/consume/a.pdf''
          (snd (snd (try_consume_file demo_env ''/consume/a.pdf'' demo_consumer demo_world))))"
proof -
  have t: "fst (try_consume_file demo_env ''/consume/a.pdf'' demo_consumer demo_world) = Inr True"
    by (simp add: consumer_defs os_defs demo_defs Let_def)
  then obtain c' w' where
    e: "try_consume_file demo_env ''/consume/a.pdf'' demo_consumer demo_world = (Inr True, c', w')"
    by (cases "try_consume_file demo_env ''/consume/a.pdf'' demo_consumer demo_world") auto
  from try_consume_file_consumed[OF e] t e show ?thesis by auto
qed

lemma enter_try_simps:
  "fst (enter_try c file w) = c\<lparr>logging_group := Some (uuids w)\<rparr>"
  "files (snd (enter_try c file w)) = files w"
  "documents (snd (enter_try c file w)) = documents w"
  "doc_tags (snd (enter_try c file w)) = doc_tags w"
  "events (snd (enter_try c file w)) = events w @
     [Log INFO (''Parsers available: '' @
          join '', '' (map (\<lambda>opt. parser_name (parser opt)) (probe_all (parsers c) file)))
        (logging_group c),
      Log INFO (''Consuming '' @ file) (Some (uuids w)),
      ConsumptionStarted file (Some (uuids w))]"
  by (simp_all add: enter_try_def Let_def snd_get_parser_class log_def)

lemma try_consume_file_selected:
  assumes "title_match E file" and "is_duplicate E file w = Inr False"
    and "fst (get_parser_class c file w) = Some p"
    and "enter_try c file w = (c1, w4)"
  shows "try_consume_file E file c w =
     (case extract_and_store E c1 p file w4 of
        (Inl e, w5) \<Rightarrow>
          if is_ParseError e then
            (Inr False, c1,
             parser_cleanup p
               (log c1 ERROR (''PARSE FAILURE for '' @ file @ '': '' @ str_exn e) w5))
          else (Inl e, c1, w5)
      | (Inr document, w5) \<Rightarrow>
          (case cleanup_doc c1 file (parser_cleanup p w5) of
             (Inl e, w6) \<Rightarrow> (Inl e, c1, w6)
           | (Inr u, w6) \<Rightarrow>
               (let w7 = log c1 INFO
                           (''Document '' @ str_document E document @
                              '' consumption finished'') w6
                in (Inr True, c1,
                    w7\<lparr>events := events w7 @
                         [ConsumptionFinished document (logging_group c1)]\<rparr>))))"
proof -
  obtain w1 where gp: "get_parser_class c file w = (Some p, w1)"
    using assms(3) by (cases "get_parser_class c file w") auto
  then have w1: "snd (get_parser_class c file w) = w1" by simp
  from assms(4) have c1: "c1 = c\<lparr>logging_group := Some (uuids w1)\<rparr>"
    and w4: "w4 = (log c1 INFO (''Consuming '' @ file) (w1\<lparr>uuids := Suc (uuids w1)\<rparr>))
                    \<lparr>events := events (log c1 INFO (''Consuming '' @ file)
                                         (w1\<lparr>uuids := Suc (uuids w1)\<rparr>)) @
                               [ConsumptionStarted file (logging_group c1)]\<rparr>"
    by (auto simp: enter_try_def w1 Let_def)
  show ?thesis
    using assms(1,2) gp unfolding w4 unfolding c1
    by (simp add: try_consume_file_def Let_def)
qed

text \<open>
  Claim C5.  Take a file that reaches extraction (its name matches, it is no duplicate, a
  parser was selected) and whose extraction raises a parse error, be it from the
  thumbnail, the date or the text.  Then the attempt returns False, the table of documents
  and the files are unchanged, the source still exists, the error is logged at error level
  together with the message of the parse error, and among the effects of the attempt
  there is exactly one call of the parser's cleanup.
\<close>

theorem try_consume_file_parse_error:
  assumes "title_match E file" and "is_duplicate E file w = Inr False"
    and "fst (get_parser_class c file w) = Some p"
    and "extraction p file = Inl (ParseError m)"
  shows "\<exists>w' evs. try_consume_file E file c w =
                    (Inr False, c\<lparr>logging_group := Some (uuids w)\<rparr>, w') \<and>
           documents w' = documents w \<and> files w' = files w \<and> os_path_exists file w' \<and>
           events w' = events w @ evs \<and>
           Log ERROR (''PARSE FAILURE for '' @ file @ '': '' @ m) (Some (uuids w)) \<in> set evs \<and>
           length (filter is_ParserCleanup evs) = 1"
proof -
  have ex: "os_path_exists file w"
    using assms(2)
    by (auto simp: is_duplicate_def read_file_def os_path_exists_def split: sum.splits option.splits)
  obtain c1 w4 where et: "enter_try c file w = (c1, w4)"
    by (cases "enter_try c file w")
  have c1: "c1 = c\<lparr>logging_group := Some (uuids w)\<rparr>"
    and w4: "files w4 = files w" "documents w4 = documents w"
      "events w4 = events w @
        [Log INFO (''Parsers available: '' @
            join '', '' (map (\<lambda>opt. parser_name (parser opt)) (probe_all (parsers c) file)))
          (logging_group c),
         Log INFO (''Consuming '' @ file) (Some (uuids w)),
         ConsumptionStarted file (Some (uuids w))]"
    using et by (auto simp: enter_try_def Let_def snd_get_parser_class log_def)
  show ?thesis
    unfolding try_consume_file_selected[OF assms(1,2,3) et]
    using assms(4) ex w4
    by (simp add: extract_and_store_extraction parser_cleanup_def log_def
        os_path_exists_def fs_lookup_def c1)
qed

theorem try_consume_file_parse_error_witness:
  "title_match demo_env ''/consume/a.pdf'' \<and>
   is_duplicate demo_env ''/consume/a.pdf'' demo_world = Inr False \<and>
   fst (get_parser_class ocr_consumer ''/consume/a.pdf'' demo_world) = Some unreadable_parser \<and>
   extraction unreadable_parser ''/consume/a.pdf'' = Inl (ParseError ''no text recognised'') \<and>
   (\<exists>w' evs. try_consume_file demo_env ''/consume/a.pdf'' ocr_consumer demo_world =
                    (Inr False, ocr_consumer\<lparr>logging_group := Some (uuids demo_world)\<rparr>, w') \<and>
           documents w' = documents demo_world \<and> files w' = files demo_world \<and>
           os_path_exists ''/consume/a.pdf'' w' \<and>
           events w' = events demo_world @ evs \<and>
           Log ERROR (''PARSE FAILURE for '' @ ''/consume/a.pdf'' @ '': '' @ ''no text recognised'')
             (Some (uuids demo_world)) \<in> set evs \<and>
           length (filter is_ParserCleanup evs) = 1)"
proof -
  have 1: "title_match demo_env ''/consume/a.pdf''" by (simp add: demo_defs)
  have 2: "is_duplicate demo_env ''/consume/a.pdf'' demo_world = Inr False"
    by (simp add: is_duplicate_def os_defs demo_defs)
  have 3: "fst (get_parser_class ocr_consumer ''/consume/a.pdf'' demo_world) = Some unreadable_parser"
    by (simp add: fst_get_parser_class sorted_by_reverse_def ocr_consumer_def)
  have 4: "extraction unreadable_parser ''/consume/a.pdf'' = Inl (ParseError ''no text recognised'')"
    by (simp add: extraction_def unreadable_parser_def)
  from try_consume_file_parse_error[OF 1 2 3 4] 1 2 3 4 show ?thesis by blast
qed

section \<open>The store step\<close>

text \<open>
  Claim C8.  Whenever the store step inserts a document, its \<open>created\<close> time is the date
  embedded in the file name if there is one, else the date the extraction provided if
  there is one, else the modification time of the source file; \<open>modified\<close> equals
  \<open>created\<close>; and the document the step returns is the inserted one.
\<close>

theorem store_created_priority:
  assumes "store E c text doc thumbnail date w = (r, w')"
  shows "(documents w' = documents w \<and> (\<exists>e. r = Inl e)) \<or>
         (\<exists>st d. os_path_getmtime doc w = Inr st \<and> documents w' = documents w @ [d] \<and>
            created d =
              (case fi_created (from_path E doc) of
                 Some t \<Rightarrow> t
               | None \<Rightarrow> (case date of Some t \<Rightarrow> t | None \<Rightarrow> from_timestamp E st)) \<and>
            modified d = created d \<and>
            (\<forall>d'. r = Inr d' \<longrightarrow> d' = d))"
  using assms
  apply (simp add: store_def Let_def objects_create_def split: sum.splits prod.splits)
  apply (auto dest!: encrypt_and_store_cases simp: tags_add_def log_def split: if_splits)
  done

theorem store_created_priority_witness:
  "\<exists>st d. os_path_getmtime ''/consume/a.pdf'' demo_world = Inr st \<and>
      documents (snd (store demo_env demo_consumer ''invoice'' ''/consume/a.pdf''
                        ''/scratch/thumb.png'' None demo_world)) = documents demo_world @ [d] \<and>
      created d = from_timestamp demo_env st \<and> modified d = created d \<and>
      fst (store demo_env demo_consumer ''invoice'' ''/consume/a.pdf''
             ''/scratch/thumb.png'' None demo_world) = Inr d"
proof -
  let ?s = "store demo_env demo_consumer ''invoice'' ''/consume/a.pdf''
              ''/scratch/thumb.png'' None demo_world"
  have ok: "\<exists>d. fst ?s = Inr d"
    by (simp add: consumer_defs os_defs demo_defs Let_def)
  have fi: "fi_created (from_path demo_env ''/consume/a.pdf'') = None"
    by (simp add: demo_defs)
  have "?s = (fst ?s, snd ?s)" by simp
  from store_created_priority[OF this] ok fi show ?thesis by auto
qed

text \<open>
  Claim C2, as stated, fails: the store step inserts the document first and has no
  transaction around the writes that follow, so a failure of the encryption leaves the row
  behind and the next duplicate check finds it.
\<close>

theorem store_failure_counterexample:
  "fst (store broken_env demo_consumer ''invoice'' ''/consume/a.pdf'' ''/scratch/thumb.png'' None
          demo_world) = Inl (ExternalError ''gpg: encryption failed'') \<and>
   is_duplicate broken_env ''/consume/a.pdf'' demo_world = Inr False \<and>
   is_duplicate broken_env ''/consume/a.pdf''
     (snd (store broken_env demo_consumer ''invoice'' ''/consume/a.pdf'' ''/scratch/thumb.png'' None
          demo_world)) = Inr True"
  by (simp add: broken_env_def consumer_defs os_defs demo_defs Let_def)

text \<open>
  Claim C2, amended.  A failure of the store step is returned to the caller: a store step
  that returns a document has written both encrypted artifacts.  When the step fails
  before the row is inserted, the failure is that of reading the source (its status or its
  bytes) and the table is unchanged.  When it fails later, while an artifact is opened,
  encrypted or written, the inserted document stays in the table with the checksum of the
  source, where a query for that checksum finds it.
\<close>

theorem store_failure:
  assumes "store E c text doc thumbnail date w = (r, w')"
  shows "(\<forall>e. r = Inl e \<longrightarrow>
           ((os_path_getmtime doc w = Inl e \<or> read_file doc w = Inl e) \<and>
              documents w' = documents w) \<or>
           (\<exists>b d. read_file doc w = Inr b \<and> documents w' = documents w @ [d] \<and>
              checksum d = md5 E b \<and>
              filter (\<lambda>x. checksum x = md5 E b) (documents w') \<noteq> [])) \<and>
         (\<forall>d. r = Inr d \<longrightarrow>
           (\<exists>enc enc'. FileWritten (source_path E d) enc \<in> set (drop (length (events w)) (events w')) \<and>
              FileWritten (thumbnail_path E d) enc' \<in> set (drop (length (events w)) (events w'))))"
proof (intro conjI allI impI)
  fix e assume "r = Inl e"
  with assms show "((os_path_getmtime doc w = Inl e \<or> read_file doc w = Inl e) \<and>
              documents w' = documents w) \<or>
           (\<exists>b d. read_file doc w = Inr b \<and> documents w' = documents w @ [d] \<and>
              checksum d = md5 E b \<and>
              filter (\<lambda>x. checksum x = md5 E b) (documents w') \<noteq> [])"
    apply (simp add: store_def Let_def objects_create_def split: sum.splits prod.splits)
     apply (auto dest!: encrypt_and_store_cases simp: tags_add_def log_def split: if_splits)
    done
next
  fix d assume "r = Inr d"
  with assms have "store E c text doc thumbnail date w = (Inr d, w')" by simp
  from store_Inr[OF this] show "\<exists>enc enc'. FileWritten (source_path E d) enc \<in> set (drop (length (events w)) (events w')) \<and>
              FileWritten (thumbnail_path E d) enc' \<in> set (drop (length (events w)) (events w'))"
    by auto
qed

theorem store_failure_witness:
  "\<exists>b d. read_file ''/consume/a.pdf'' demo_world = Inr b \<and>
      documents (snd (store broken_env demo_consumer ''invoice'' ''/consume/a.pdf''
                        ''/scratch/thumb.png'' None demo_world)) = documents demo_world @ [d] \<and>
      checksum d = md5 broken_env b \<and>
      filter (\<lambda>x. checksum x = md5 broken_env b)
        (documents (snd (store broken_env demo_consumer ''invoice'' ''/consume/a.pdf''
                        ''/scratch/thumb.png'' None demo_world))) \<noteq> []"
proof -
  let ?s = "store broken_env demo_consumer ''invoice'' ''/consume/a.pdf''
              ''/scratch/thumb.png'' None demo_world"
  have r: "fst ?s = Inl (ExternalError ''gpg: encryption failed'')"
    by (simp add: broken_env_def consumer_defs os_defs demo_defs Let_def)
  have g: "os_path_getmtime ''/consume/a.pdf'' demo_world = Inr 10"
    and f: "read_file ''/consume/a.pdf'' demo_world = Inr [1, 2, 3]"
    by (simp_all add: os_defs demo_defs)
  have "?s = (fst ?s, snd ?s)" by simp
  from store_failure[OF this] r g f show ?thesis by auto
qed

section \<open>The consumption pass\<close>

lemma encrypt_and_store_events:
  assumes "encrypt_and_store E c src dst msg w = (r, w')"
  shows "\<exists>evs. events w' = events w @ evs \<and> \<not> list_ex (consumption_of f) evs"
  using assms
  by (auto simp: encrypt_and_store_def open_rb_def open_wb_def log_def file_write_def Let_def
      split: sum.splits option.splits node.splits prod.splits if_splits)

lemma store_events:
  assumes "store E c text doc thumbnail date w = (r, w')"
  shows "\<exists>evs. events w' = events w @ evs \<and> \<not> list_ex (consumption_of f) evs"
proof -
  have *: "\<exists>evs. events w' = events w @ evs \<and> \<not> list_ex (consumption_of f) evs"
    if "encrypt_and_store E c src dst msg w3 = (r1, w4)"
      and "events w3 = events w @ evs3" and "\<not> list_ex (consumption_of f) evs3"
      and "events w' = events w4 @ evs5" and "\<not> list_ex (consumption_of f) evs5"
    for src dst msg w3 r1 w4 evs3 evs5
    using encrypt_and_store_events[OF that(1), of f] that(2-) by auto
  show ?thesis
    using assms
    apply (simp add: store_def Let_def objects_create_def split: sum.splits prod.splits)
       apply (auto simp: tags_add_def log_def split: if_splits
        dest!: encrypt_and_store_events[where f=f])
    done
qed

lemma os_unlink_events:
  assumes "os_unlink p w = (r, w')"
  shows "\<exists>evs. events w' = events w @ evs \<and> (f \<noteq> p \<longrightarrow> \<not> list_ex (consumption_of f) evs)"
  using assms by (auto simp: os_unlink_def split: option.splits node.splits)

lemma try_consume_file_self:
  assumes "try_consume_file E g c w = (r, c', w')"
  shows "ignore c' = ignore c \<and> consume c' = consume c \<and> parsers c' = parsers c"
proof (cases "title_match E g \<and> is_duplicate E g w = Inr False \<and>
              fst (get_parser_class c g w) \<noteq> None")
  case True
  then obtain p where p: "fst (get_parser_class c g w) = Some p" by auto
  from True have tm: "title_match E g" and nd: "is_duplicate E g w = Inr False" by simp_all
  obtain c1 w4 where et: "enter_try c g w = (c1, w4)" by (cases "enter_try c g w")
  note eq = try_consume_file_selected[OF tm nd p et]
  from et have c1: "c1 = c\<lparr>logging_group := Some (uuids w)\<rparr>"
    using enter_try_simps(1)[of c g w] by simp
  show ?thesis
    using assms unfolding eq
    by (auto simp: c1 Let_def split: sum.splits prod.splits if_splits)
next
  case False
  then show ?thesis
    using assms
    by (cases "get_parser_class c g w")
       (auto simp: try_consume_file_def split: if_splits sum.splits option.splits)
qed

lemma try_consume_file_events:
  assumes "try_consume_file E g c w = (r, c', w')"
  shows "\<exists>evs. events w' = events w @ evs \<and> (f \<noteq> g \<longrightarrow> \<not> list_ex (consumption_of f) evs)"
proof (cases "title_match E g \<and> is_duplicate E g w = Inr False \<and>
              fst (get_parser_class c g w) \<noteq> None")
  case True
  then obtain p where p: "fst (get_parser_class c g w) = Some p" by auto
  from True have tm: "title_match E g" and nd: "is_duplicate E g w = Inr False" by simp_all
  obtain c1 w4 where et: "enter_try c g w = (c1, w4)" by (cases "enter_try c g w")
  note eq = try_consume_file_selected[OF tm nd p et]
  from et have e4: "events w4 = events w @
     [Log INFO (''Parsers available: '' @
          join '', '' (map (\<lambda>opt. parser_name (parser opt)) (probe_all (parsers c) g)))
        (logging_group c),
      Log INFO (''Consuming '' @ g) (Some (uuids w)),
      ConsumptionStarted g (Some (uuids w))]"
    using enter_try_simps(5)[of c g w] by simp
  obtain r5 w5 where es: "extract_and_store E c1 p g w4 = (r5, w5)"
    by (cases "extract_and_store E c1 p g w4")
  have "\<exists>evs. events w5 = events w4 @ evs \<and> \<not> list_ex (consumption_of f) evs"
    using es store_events[where f=f]
    by (auto simp: extract_and_store_extraction split: sum.splits)
  then obtain evs5 where e5: "events w5 = events w4 @ evs5" "\<not> list_ex (consumption_of f) evs5"
    by blast
  show ?thesis
  proof (cases r5)
    case (Inl e)
    then show ?thesis
      using assms es e4 e5 unfolding eq
      by (auto simp: parser_cleanup_def log_def split: if_splits)
  next
    case (Inr d)
    obtain r6 w6 where cd: "cleanup_doc c1 g (parser_cleanup p w5) = (r6, w6)"
      by (cases "cleanup_doc c1 g (parser_cleanup p w5)")
    from cd os_unlink_events[where f=f and p=g]
    obtain evs6 where e6: "events w6 = events w5 @
        [ParserCleanup (parser_name p), Log DEBUG (''Deleting document '' @ g) (logging_group c1)]
        @ evs6" "f \<noteq> g \<longrightarrow> \<not> list_ex (consumption_of f) evs6"
      by (fastforce simp: cleanup_doc_def parser_cleanup_def log_def)
    show ?thesis
      using assms es e4 e5 Inr cd e6 unfolding eq
      by (auto simp: log_def Let_def split: sum.splits)
  qed
next
  case False
  then show ?thesis
    using assms
    by (cases "get_parser_class c g w")
       (auto simp: try_consume_file_def log_def snd_get_parser_class
             split: if_splits sum.splits option.splits
             dest!: arg_cong[where f=snd])
qed

lemma consume_files_append:
  "consume_files E (xs @ ys) c w =
     (case consume_files E xs c w of
        (Inl e, c1, w1) \<Rightarrow> (Inl e, c1, w1)
      | (Inr u, c1, w1) \<Rightarrow> consume_files E ys c1 w1)"
proof (induction xs arbitrary: c w)
  case Nil
  then show ?case by simp
next
  case (Cons a xs)
  obtain fl mt where a: "a = (fl, mt)" by (cases a)
  show ?case
    unfolding a by (auto simp: Cons split: sum.splits prod.splits)
qed

lemma consume_files_pass:
  assumes "consume_files E fs c w = (r, c', w')"
  shows "(\<exists>added. ignore c' = ignore c @ added \<and> set added \<subseteq> fst ` set fs) \<and>
         (\<exists>evs. events w' = events w @ evs \<and>
            (f \<notin> fst ` set fs \<longrightarrow> \<not> list_ex (consumption_of f) evs)) \<and>
         consume c' = consume c \<and> parsers c' = parsers c"
  using assms
proof (induction fs arbitrary: c w)
  case Nil
  then show ?case by simp
next
  case (Cons a rest)
  obtain fl mt where a: "a = (fl, mt)" by (cases a)
  note run = Cons.prems[unfolded a]
  show ?case
  proof (cases "os_path_getmtime fl w")
    case (Inl e)
    with run show ?thesis by (simp add: a)
  next
    case (Inr m)
    show ?thesis
    proof (cases "mt = m")
      case False
      with run Inr have "consume_files E rest c w = (r, c', w')" by simp
      from Cons.IH[OF this] show ?thesis by (auto simp: a)
    next
      case True
      obtain r1 c1 w1 where t: "try_consume_file E fl c w = (r1, c1, w1)"
        by (cases "try_consume_file E fl c w")
      note s = try_consume_file_self[OF t]
      from try_consume_file_events[OF t, of f] obtain evs1 where
        e1: "events w1 = events w @ evs1" "f \<noteq> fl \<longrightarrow> \<not> list_ex (consumption_of f) evs1"
        by blast
      show ?thesis
      proof (cases r1)
        case (Inl e)
        with run Inr True t s e1 show ?thesis by (auto simp: a)
      next
        case r: (Inr consumed)
        show ?thesis
        proof (cases consumed)
          case True
          with run Inr \<open>mt = m\<close> t r have "consume_files E rest c1 w1 = (r, c', w')" by simp
          from Cons.IH[OF this] s e1 show ?thesis by (auto simp: a list_ex_iff)
        next
          case False
          with run Inr \<open>mt = m\<close> t r
          have "consume_files E rest (c1\<lparr>ignore := ignore c1 @ [fl]\<rparr>) w1 = (r, c', w')" by simp
          from Cons.IH[OF this] s e1 show ?thesis by (auto simp: a list_ex_iff)
        qed
      qed
    qed
  qed
qed

lemma consume_new_files_scan:
  assumes "os_scandir (consume c0) w0 = Inr entries"
    and "sorted_by snd (scan_files c0 entries) = pre @ x # post"
  shows "consume_new_files E c0 w0 =
           consume_files E (pre @ x # post) c0 (w0\<lparr>files := settle E (files w0)\<rparr>)"
proof -
  have "scan_files c0 entries \<noteq> []"
    using assms(2) by (auto simp: sorted_by_def)
  with assms show ?thesis by (simp add: consume_new_files_def Let_def)
qed

text \<open>
  Claim C7.  Take a pass whose scan found the file with modification time \<open>m\<close>, and let
  the pass reach the file after the settle delay.  If the modification time the pass then
  reads differs from \<open>m\<close> (or cannot be read any more), the pass makes no attempt on the
  file: it raises the error of the read, or goes on with the next file from the very same
  state.  When the file occurs once among the candidates, the whole pass neither adds it to
  the ignore list nor announces or deletes it.
\<close>

theorem changed_file_not_consumed:
  assumes "os_scandir (consume c0) w0 = Inr entries"
    and "sorted_by snd (scan_files c0 entries) = pre @ (file, m) # post"
    and "consume_files E pre c0 (w0\<lparr>files := settle E (files w0)\<rparr>) = (Inr (), c, w)"
    and "os_path_getmtime file w \<noteq> Inr m"
  shows "consume_new_files E c0 w0 =
           (case os_path_getmtime file w of
              Inl e \<Rightarrow> (Inl e, c, w)
            | Inr m' \<Rightarrow> consume_files E post c w) \<and>
         (file \<notin> fst ` set pre \<union> fst ` set post \<longrightarrow>
            (\<exists>r c' w' added evs. consume_new_files E c0 w0 = (r, c', w') \<and>
               ignore c' = ignore c0 @ added \<and> file \<notin> set added \<and>
               events w' = events w0 @ evs \<and> \<not> list_ex (consumption_of file) evs))"
proof
  note eq = consume_new_files_scan[OF assms(1,2), of E]
  show step: "consume_new_files E c0 w0 =
           (case os_path_getmtime file w of
              Inl e \<Rightarrow> (Inl e, c, w)
            | Inr m' \<Rightarrow> consume_files E post c w)"
    using assms(3,4) by (auto simp: eq consume_files_append split: sum.splits)
  show "file \<notin> fst ` set pre \<union> fst ` set post \<longrightarrow>
            (\<exists>r c' w' added evs. consume_new_files E c0 w0 = (r, c', w') \<and>
               ignore c' = ignore c0 @ added \<and> file \<notin> set added \<and>
               events w' = events w0 @ evs \<and> \<not> list_ex (consumption_of file) evs)"
  proof
    assume once: "file \<notin> fst ` set pre \<union> fst ` set post"
    obtain r c' w' where run: "consume_new_files E c0 w0 = (r, c', w')"
      by (cases "consume_new_files E c0 w0")
    from consume_files_pass[OF assms(3), of "file"] once
    have "\<exists>added1 evs1. ignore c = ignore c0 @ added1 \<and> file \<notin> set added1 \<and>
            events w = events w0 @ evs1 \<and> \<not> list_ex (consumption_of file) evs1"
      by auto
    then obtain added1 evs1 where
      1: "ignore c = ignore c0 @ added1" "file \<notin> set added1"
         "events w = events w0 @ evs1" "\<not> list_ex (consumption_of file) evs1"
      by blast
    have "\<exists>added2 evs2. ignore c' = ignore c @ added2 \<and> file \<notin> set added2 \<and>
            events w' = events w @ evs2 \<and> \<not> list_ex (consumption_of file) evs2"
    proof (cases "os_path_getmtime file w")
      case (Inl e)
      with run step show ?thesis by simp
    next
      case (Inr m')
      with run step have "consume_files E post c w = (r, c', w')" by simp
      from consume_files_pass[OF this, of "file"] once show ?thesis by auto
    qed
    with 1 run show "\<exists>r c' w' added evs. consume_new_files E c0 w0 = (r, c', w') \<and>
               ignore c' = ignore c0 @ added \<and> file \<notin> set added \<and>
               events w' = events w0 @ evs \<and> \<not> list_ex (consumption_of file) evs"
      by (auto simp: list_ex_iff)
  qed
qed

theorem changed_file_not_consumed_witness:
  "os_path_getmtime ''/consume/a.pdf''
     (two_files_world\<lparr>files := settle busy_env (files two_files_world)\<rparr>) = Inr 15 \<and>
   sorted_by snd (scan_files demo_consumer
      [(''/consume/a.pdf'', File [1, 2, 3] 10), (''/consume/b.pdf'', File [4, 5] 12)]) =
     [] @ (''/consume/a.pdf'', 10) # [(''/consume/b.pdf'', 12)] \<and>
   consume_new_files busy_env demo_consumer two_files_world =
     consume_files busy_env [(''/consume/b.pdf'', 12)] demo_consumer
       (two_files_world\<lparr>files := settle busy_env (files two_files_world)\<rparr>) \<and>
   (\<exists>r c' w' added evs.
      consume_new_files busy_env demo_consumer two_files_world = (r, c', w') \<and>
      ignore c' = ignore demo_consumer @ added \<and> ''/consume/a.pdf'' \<notin> set added \<and>
      events w' = events two_files_world @ evs \<and>
      \<not> list_ex (consumption_of ''/consume/a.pdf'') evs)"
proof -
  let ?w = "two_files_world\<lparr>files := settle busy_env (files two_files_world)\<rparr>"
  have 1: "os_scandir (consume demo_consumer) two_files_world =
             Inr [(''/consume/a.pdf'', File [1, 2, 3] 10), (''/consume/b.pdf'', File [4, 5] 12)]"
    by (simp add: os_defs demo_defs)
  have 2: "sorted_by snd (scan_files demo_consumer
      [(''/consume/a.pdf'', File [1, 2, 3] 10), (''/consume/b.pdf'', File [4, 5] 12)]) =
     [] @ (''/consume/a.pdf'', 10) # [(''/consume/b.pdf'', 12)]"
    by (simp add: sorted_by_def scan_files_def demo_defs)
  have 3: "consume_files busy_env [] demo_consumer ?w = (Inr (), demo_consumer, ?w)"
    by simp
  have g: "os_path_getmtime ''/consume/a.pdf'' ?w = Inr 15"
    by (simp add: os_defs demo_defs)
  then have 4: "os_path_getmtime ''/consume/a.pdf'' ?w \<noteq> Inr 10" by simp
  have 5: "''/consume/a.pdf'' \<notin> fst ` set [] \<union> fst ` set [(''/consume/b.pdf'', 12::int)]"
    by simp
  note th = changed_file_not_consumed[OF 1 2 3 4]
  from th have "consume_new_files busy_env demo_consumer two_files_world =
      (case os_path_getmtime ''/consume/a.pdf'' ?w of
         Inl e \<Rightarrow> (Inl e, demo_consumer, ?w)
       | Inr m' \<Rightarrow> consume_files busy_env [(''/consume/b.pdf'', 12)] demo_consumer ?w)"
    by (rule conjunct1)
  then have a: "consume_new_files busy_env demo_consumer two_files_world =
      consume_files busy_env [(''/consume/b.pdf'', 12)] demo_consumer ?w"
    by (simp only: g sum.case)
  from th 5 have b: "\<exists>r c' w' added evs.
      consume_new_files busy_env demo_consumer two_files_world = (r, c', w') \<and>
      ignore c' = ignore demo_consumer @ added \<and> ''/consume/a.pdf'' \<notin> set added \<and>
      events w' = events two_files_world @ evs \<and>
      \<not> list_ex (consumption_of ''/consume/a.pdf'') evs"
    by blast
  from g 2 a b show ?thesis by blast
qed

text \<open>
  Claim C6, as stated, fails for duplicates: the pass appends every file whose attempt
  returned False to the ignore list, and a duplicate skip returns False.
\<close>

theorem duplicate_ignored_counterexample:
  "is_duplicate demo_env ''/consume/a.pdf'' seen_world = Inr True \<and>
   ignore demo_consumer = [] \<and>
   fst (consume_new_files demo_env demo_consumer seen_world) = Inr () \<and>
   ignore (fst (snd (consume_new_files demo_env demo_consumer seen_world))) = [''/consume/a.pdf'']"
  by (simp add: consumer_defs os_defs demo_defs Let_def)

text \<open>
  Claim C6, amended.  In every pass, a ready file whose attempt returns False is appended
  to the ignore list, and a file whose attempt returns True is not; the files appended
  after it are later candidates of the pass.  The attempt returns False, in particular,
  when the name does not match the pattern, when the file is a duplicate, and when no
  parser applies.
\<close>

theorem failed_attempt_ignored:
  assumes "os_scandir (consume c0) w0 = Inr entries"
    and "sorted_by snd (scan_files c0 entries) = pre @ (file, m) # post"
    and "consume_files E pre c0 (w0\<lparr>files := settle E (files w0)\<rparr>) = (Inr (), c, w)"
    and "os_path_getmtime file w = Inr m"
    and "try_consume_file E file c w = (Inr consumed, c1, w1)"
    and "consume_new_files E c0 w0 = (r, c', w')"
  shows "(\<not> consumed \<longrightarrow>
            (\<exists>later. ignore c' = ignore c @ [file] @ later \<and> set later \<subseteq> fst ` set post)) \<and>
         (consumed \<longrightarrow>
            (\<exists>later. ignore c' = ignore c @ later \<and> set later \<subseteq> fst ` set post)) \<and>
         (\<not> title_match E file \<or> is_duplicate E file w = Inr True \<or>
            fst (get_parser_class c file w) = None \<longrightarrow> \<not> consumed)"
proof (intro conjI impI)
  note eq = consume_new_files_scan[OF assms(1,2), of E]
  note s = try_consume_file_self[OF assms(5)]
  {
    assume nc: "\<not> consumed"
    with assms(3,4,5,6) have "consume_files E post (c1\<lparr>ignore := ignore c1 @ [file]\<rparr>) w1 = (r, c', w')"
      by (simp add: eq consume_files_append)
    from consume_files_pass[OF this, of "file"] s
    show "\<exists>later. ignore c' = ignore c @ [file] @ later \<and> set later \<subseteq> fst ` set post"
      by auto
  }
  {
    assume "consumed"
    with assms(3,4,5,6) have "consume_files E post c1 w1 = (r, c', w')"
      by (simp add: eq consume_files_append)
    from consume_files_pass[OF this, of "file"] s
    show "\<exists>later. ignore c' = ignore c @ later \<and> set later \<subseteq> fst ` set post"
      by auto
  }
  {
    assume "\<not> title_match E file \<or> is_duplicate E file w = Inr True \<or>
            fst (get_parser_class c file w) = None"
    with assms(5) show "\<not> consumed"
      by (cases "get_parser_class c file w")
         (auto simp: try_consume_file_def split: if_splits sum.splits)
  }
qed

theorem failed_attempt_ignored_witness:
  "is_duplicate demo_env ''/consume/a.pdf'' seen_world = Inr True \<and>
   fst (consume_new_files demo_env demo_consumer seen_world) = Inr () \<and>
   ignore (fst (snd (consume_new_files demo_env demo_consumer seen_world))) =
     ignore demo_consumer @ [''/consume/a.pdf'']"
proof -
  let ?w = "seen_world\<lparr>files := settle demo_env (files seen_world)\<rparr>"
  let ?t = "try_consume_file demo_env ''/consume/a.pdf'' demo_consumer ?w"
  let ?p = "consume_new_files demo_env demo_consumer seen_world"
  have 1: "os_scandir (consume demo_consumer) seen_world =
             Inr [(''/consume/a.pdf'', File [1, 2, 3] 10)]"
    by (simp add: os_defs demo_defs)
  have 2: "sorted_by snd (scan_files demo_consumer [(''/consume/a.pdf'', File [1, 2, 3] 10)]) =
     [] @ (''/consume/a.pdf'', 10) # []"
    by (simp add: sorted_by_def scan_files_def demo_defs)
  have 3: "consume_files demo_env [] demo_consumer ?w = (Inr (), demo_consumer, ?w)"
    by simp
  have 4: "os_path_getmtime ''/consume/a.pdf'' ?w = Inr 10"
    by (simp add: os_defs demo_defs)
  have d: "is_duplicate demo_env ''/consume/a.pdf'' ?w = Inr True"
    by (simp add: is_duplicate_def os_defs demo_defs)
  have d': "is_duplicate demo_env ''/consume/a.pdf'' seen_world = Inr True"
    by (simp add: is_duplicate_def os_defs demo_defs)
  have "fst ?t = Inr False"
    using d by (simp add: try_consume_file_def demo_defs)
  then have 5: "?t = (Inr False, fst (snd ?t), snd (snd ?t))"
    by (simp add: prod_eq_iff)
  have r: "fst ?p = Inr ()"
    by (simp add: consumer_defs os_defs demo_defs Let_def)
  have 6: "?p = (fst ?p, fst (snd ?p), snd (snd ?p))" by simp
  from failed_attempt_ignored[OF 1 2 3 4 5 6] d' r show ?thesis by simp
qed

text \<open>
  Claim C10.  When the store step, entered for a file whose extraction succeeded, raises
  an exception that is no parse error, the attempt raises the same exception and leaves
  the state the store step left (no cleanup, no deletion); and a pass that reaches the file
  raises it as well, whatever candidates come later in its oldest-first order: none of
  them is processed.
\<close>

theorem store_error_propagates:
  assumes "title_match E file" and "is_duplicate E file w = Inr False"
    and "fst (get_parser_class c file w) = Some p"
    and "extraction p file = Inr (th, dt, tx)"
    and "enter_try c file w = (c1, w4)"
    and "store E c1 tx file th dt w4 = (Inl e, w5)"
    and "\<not> is_ParseError e"
  shows "try_consume_file E file c w = (Inl e, c1, w5) \<and>
         (\<forall>c0 w0 entries pre post m.
            os_scandir (consume c0) w0 = Inr entries \<and>
            sorted_by snd (scan_files c0 entries) = pre @ (file, m) # post \<and>
            consume_files E pre c0 (w0\<lparr>files := settle E (files w0)\<rparr>) = (Inr (), c, w) \<and>
            os_path_getmtime file w = Inr m \<longrightarrow>
            consume_new_files E c0 w0 = (Inl e, c1, w5))"
proof -
  have t: "try_consume_file E file c w = (Inl e, c1, w5)"
    unfolding try_consume_file_selected[OF assms(1,2,3,5)]
    using assms(4,6,7) by (simp add: extract_and_store_extraction)
  show ?thesis
  proof (intro conjI allI impI)
    show "try_consume_file E file c w = (Inl e, c1, w5)" by (rule t)
  next
    fix c0 w0 entries pre post m
    assume h: "os_scandir (consume c0) w0 = Inr entries \<and>
            sorted_by snd (scan_files c0 entries) = pre @ (file, m) # post \<and>
            consume_files E pre c0 (w0\<lparr>files := settle E (files w0)\<rparr>) = (Inr (), c, w) \<and>
            os_path_getmtime file w = Inr m"
    then have a: "os_scandir (consume c0) w0 = Inr entries"
      and b: "sorted_by snd (scan_files c0 entries) = pre @ (file, m) # post"
      by simp_all
    have "consume_new_files E c0 w0 =
                 consume_files E (pre @ (file, m) # post) c0 (w0\<lparr>files := settle E (files w0)\<rparr>)"
      by (rule consume_new_files_scan[OF a b])
    with h t show "consume_new_files E c0 w0 = (Inl e, c1, w5)"
      by (simp add: consume_files_append)
  qed
qed

theorem store_error_propagates_witness:
  "fst (try_consume_file broken_env ''/consume/a.pdf'' demo_consumer
          (two_files_world\<lparr>files := settle broken_env (files two_files_world)\<rparr>)) =
     Inl (ExternalError ''gpg: encryption failed'') \<and>
   fst (consume_new_files broken_env demo_consumer two_files_world) =
     Inl (ExternalError ''gpg: encryption failed'') \<and>
   sorted_by snd (scan_files demo_consumer
      [(''/consume/a.pdf'', File [1, 2, 3] 10), (''/consume/b.pdf'', File [4, 5] 12)]) =
     [] @ (''/consume/a.pdf'', 10) # [(''/consume/b.pdf'', 12)]"
proof -
  let ?w = "two_files_world\<lparr>files := settle broken_env (files two_files_world)\<rparr>"
  let ?f = "''/consume/a.pdf''"
  let ?c1 = "fst (enter_try demo_consumer ?f ?w)"
  let ?w4 = "snd (enter_try demo_consumer ?f ?w)"
  let ?s = "store broken_env ?c1 ''invoice'' ?f ''/scratch/thumb.png'' (Some 77) ?w4"
  have 1: "title_match broken_env ?f" by (simp add: demo_defs)
  have 2: "is_duplicate broken_env ?f ?w = Inr False"
    by (simp add: is_duplicate_def os_defs demo_defs)
  have 3: "fst (get_parser_class demo_consumer ?f ?w) = Some pdf_parser"
    by (simp add: fst_get_parser_class sorted_by_reverse_def demo_consumer_def
        image_declaration_def text_declaration_def pdf_declaration_def is_pdf_def)
  have 4: "extraction pdf_parser ?f = Inr (''/scratch/thumb.png'', Some 77, ''invoice'')"
    by (simp add: extraction_def pdf_parser_def)
  have 5: "enter_try demo_consumer ?f ?w = (?c1, ?w4)" by simp
  have "fst ?s = Inl (ExternalError ''gpg: encryption failed'')"
    by (simp add: enter_try_def consumer_defs os_defs demo_defs Let_def)
  then have 6: "?s = (Inl (ExternalError ''gpg: encryption failed''), snd ?s)"
    by (simp add: prod_eq_iff)
  have 7: "\<not> is_ParseError (ExternalError ''gpg: encryption failed'')" by simp
  have 8: "os_scandir (consume demo_consumer) two_files_world =
             Inr [(''/consume/a.pdf'', File [1, 2, 3] 10), (''/consume/b.pdf'', File [4, 5] 12)]"
    by (simp add: os_defs demo_defs)
  have 9: "sorted_by snd (scan_files demo_consumer
      [(''/consume/a.pdf'', File [1, 2, 3] 10), (''/consume/b.pdf'', File [4, 5] 12)]) =
     [] @ (''/consume/a.pdf'', 10) # [(''/consume/b.pdf'', 12)]"
    by (simp add: sorted_by_def scan_files_def demo_defs)
  have 10: "consume_files broken_env [] demo_consumer ?w = (Inr (), demo_consumer, ?w)"
    by simp
  have 11: "os_path_getmtime ?f ?w = Inr 10"
    by (simp add: os_defs demo_defs)
  from store_error_propagates[OF 1 2 3 4 5 6 7] 8 9 10 11
  have "try_consume_file broken_env ?f demo_consumer ?w =
          (Inl (ExternalError ''gpg: encryption failed''), ?c1, snd ?s) \<and>
        consume_new_files broken_env demo_consumer two_files_world =
          (Inl (ExternalError ''gpg: encryption failed''), ?c1, snd ?s)"
    by blast
  with 9 show ?thesis by simp
qed

section \<open>Construction\<close>

lemma make_dirs_scratch:
  "make_dirs [d] w =
     (if d = [] then (Inl (FileNotFoundError d), w)
      else if os_path_exists d w then (Inr (), w)
      else (Inr (), created_dir d w))"
  by (simp add: os_makedirs_def created_dir_def)

lemma Consumer_init_world:
  "snd (Consumer_init E consume_arg scratch_arg w) = snd (make_dirs [scratch_arg] w)"
  by (simp add: Consumer_init_def split: prod.splits sum.splits option.splits)

text \<open>
  Claim C9, as stated, fails in both directions, because the scratch directory is created
  before the three checks.  With an empty scratch path the constructor raises the error of
  \<^verbatim>\<open>os.makedirs\<close>, which is no \<^verbatim>\<open>ConsumerError\<close>, whether the consumption directory is
  unset or exists with parsers registered.  And a consumption directory that does not
  exist, but is also the scratch directory, is created and accepted.
\<close>

theorem Consumer_init_counterexample:
  "fst (Consumer_init demo_env None [] demo_world) = Inl (FileNotFoundError []) \<and>
   fst (Consumer_init demo_env (Some ''/consume'') [] demo_world) = Inl (FileNotFoundError []) \<and>
   os_path_exists ''/consume'' demo_world \<and> declared demo_env \<noteq> [] \<and>
   \<not> os_path_exists ''/inbox'' demo_world \<and>
   fst (Consumer_init demo_env (Some ''/inbox'') ''/inbox'' demo_world) =
     Inr \<lparr>ignore = [], consume = ''/inbox'', scratch = ''/inbox'',
          parsers = declared demo_env, logging_group = None\<rparr>"
  by (simp add: Consumer_init_def os_defs demo_env_def demo_world_def)

text \<open>
  Claim C9, amended.  When the creation of the scratch directory does not raise, the
  constructor raises exactly when the consumption directory is unset or empty, does not
  exist once the scratch directory is there, or no parser was declared, and what it raises
  is a \<^verbatim>\<open>ConsumerError\<close>; otherwise it returns an object with an empty ignore list.  Either
  way the only effect is the scratch directory, if it was missing: the regular files, the
  documents and the log are as before.
\<close>

theorem Consumer_init_errors:
  assumes "make_dirs [scratch_arg] w = (Inr (), w1)"
  shows "((\<exists>m. fst (Consumer_init E consume_arg scratch_arg w) = Inl (ConsumerError m)) \<longleftrightarrow>
            consume_arg = None \<or> consume_arg = Some [] \<or>
            (\<exists>d. consume_arg = Some d \<and> \<not> os_path_exists d w1) \<or> declared E = []) \<and>
         (\<forall>e. fst (Consumer_init E consume_arg scratch_arg w) = Inl e \<longrightarrow> is_ConsumerError e) \<and>
         (\<forall>c. fst (Consumer_init E consume_arg scratch_arg w) = Inr c \<longrightarrow>
              ignore c = [] \<and> consume_arg = Some (consume c) \<and> parsers c = declared E) \<and>
         snd (Consumer_init E consume_arg scratch_arg w) = w1 \<and>
         (w1 = w \<or> w1 = created_dir scratch_arg w) \<and>
         filter (\<lambda>(p, n). is_File n) (files w1) = filter (\<lambda>(p, n). is_File n) (files w) \<and>
         documents w1 = documents w \<and> events w1 = events w"
proof -
  have w1: "w1 = w \<or> w1 = created_dir scratch_arg w"
    using assms[unfolded make_dirs_scratch] by (auto split: if_splits)
  then have frame: "filter (\<lambda>(p, n). is_File n) (files w1) = filter (\<lambda>(p, n). is_File n) (files w)"
    "documents w1 = documents w" "events w1 = events w"
    by (auto simp: created_dir_def)
  have "snd (Consumer_init E consume_arg scratch_arg w) = w1"
    using assms by (simp add: Consumer_init_world)
  moreover have "(\<exists>m. fst (Consumer_init E consume_arg scratch_arg w) = Inl (ConsumerError m)) \<longleftrightarrow>
            consume_arg = None \<or> consume_arg = Some [] \<or>
            (\<exists>d. consume_arg = Some d \<and> \<not> os_path_exists d w1) \<or> declared E = []"
    using assms by (cases consume_arg) (auto simp: Consumer_init_def)
  moreover have "\<forall>e. fst (Consumer_init E consume_arg scratch_arg w) = Inl e \<longrightarrow> is_ConsumerError e"
    using assms by (cases consume_arg) (auto simp: Consumer_init_def split: if_splits)
  moreover have "\<forall>c. fst (Consumer_init E consume_arg scratch_arg w) = Inr c \<longrightarrow>
              ignore c = [] \<and> consume_arg = Some (consume c) \<and> parsers c = declared E"
    using assms by (cases consume_arg) (auto simp: Consumer_init_def split: if_splits)
  ultimately show ?thesis using w1 frame by blast
qed

theorem Consumer_init_errors_witness:
  "make_dirs [''/scratch''] demo_world = (Inr (), demo_world) \<and>
   (\<exists>m. fst (Consumer_init demo_env None ''/scratch'' demo_world) = Inl (ConsumerError m)) \<and>
   (\<exists>m. fst (Consumer_init demo_env (Some ''/nowhere'') ''/scratch'' demo_world) =
           Inl (ConsumerError m)) \<and>
   (\<exists>m. fst (Consumer_init (demo_env\<lparr>declared := []\<rparr>) (Some ''/consume'') ''/scratch''
                demo_world) = Inl (ConsumerError m)) \<and>
   \<not> (\<exists>m. fst (Consumer_init demo_env (Some ''/consume'') ''/scratch'' demo_world) =
           Inl (ConsumerError m)) \<and>
   snd (Consumer_init demo_env None ''/scratch'' demo_world) = demo_world"
proof -
  have m: "make_dirs [''/scratch''] demo_world = (Inr (), demo_world)"
    by (simp add: os_defs demo_defs)
  have no: "\<not> os_path_exists ''/nowhere'' demo_world"
    and yes: "os_path_exists ''/consume'' demo_world"
    and decl: "declared demo_env \<noteq> []"
    by (simp_all add: os_defs demo_defs)
  note th = Consumer_init_errors[OF m]
  from th[of demo_env None] have 1:
    "\<exists>m. fst (Consumer_init demo_env None ''/scratch'' demo_world) = Inl (ConsumerError m)"
    and 5: "snd (Consumer_init demo_env None ''/scratch'' demo_world) = demo_world"
    by simp_all
  from th[of demo_env "Some ''/nowhere''"] no have 2:
    "\<exists>m. fst (Consumer_init demo_env (Some ''/nowhere'') ''/scratch'' demo_world) =
           Inl (ConsumerError m)"
    by simp
  from th[of "demo_env\<lparr>declared := []\<rparr>" "Some ''/consume''"] have 3:
    "\<exists>m. fst (Consumer_init (demo_env\<lparr>declared := []\<rparr>) (Some ''/consume'') ''/scratch''
                demo_world) = Inl (ConsumerError m)"
    by simp
  from th[of demo_env "Some ''/consume''"] yes decl have 4:
    "\<not> (\<exists>m. fst (Consumer_init demo_env (Some ''/consume'') ''/scratch'' demo_world) =
           Inl (ConsumerError m))"
    by simp
  from m 1 2 3 4 5 show ?thesis by blast
qed

end
